theory Spec2Isabelle
  imports Complex_Main "HOL-Library.Multiset" "HOL-Library.AList"
    "HOL-Library.Char_ord" "HOL-Library.List_Lexorder" "HOL-Library.Product_Lexorder"
begin

section \<open>Python values and errors\<close>

text \<open>
  The exceptions that \<open>core.py\<close> raises itself, and the ones the pandas calls it makes
  raise. Every \<open>raise\<close> is a branch of the model that returns \<open>Inl\<close>.
\<close>

datatype error =
    Exception string
  | TypeError string
  | ValueError string
  | KeyError string
  | MergeError string

definition bind_err :: "error + 'a \<Rightarrow> ('a \<Rightarrow> error + 'b) \<Rightarrow> error + 'b" where
  "bind_err m f = (case m of Inl e \<Rightarrow> Inl e | Inr x \<Rightarrow> f x)"

text \<open>
  A cell of a table: a missing value (NaN or None), a number, a string, or a boolean.
  Numbers are real numbers; the rounding of floating point is outside the model.
\<close>

datatype cell = Null | Num real | Str string | Bool bool

definition isnull :: "cell \<Rightarrow> bool" where
  "isnull c = (c = Null)"

section \<open>Data frames\<close>

text \<open>
  A pandas \<open>DataFrame\<close>: the column labels in order, the dtype name of each column, and
  the rows, each with its index label and its cells by column label. A label that a row
  does not hold reads as missing, as pandas fills NaN.
\<close>

type_synonym row = "(string \<times> cell) list"

record dataframe =
  columns :: "string list"
  dtypes :: "(string \<times> string) list"
  rows :: "(cell \<times> row) list"

definition len :: "dataframe \<Rightarrow> nat" where
  "len d = length (rows d)"

definition index :: "dataframe \<Rightarrow> cell list" where
  "index d = map fst (rows d)"

definition cell_of :: "row \<Rightarrow> string \<Rightarrow> cell" where
  "cell_of r n = (case map_of r n of None \<Rightarrow> Null | Some v \<Rightarrow> v)"

definition cells_of :: "string list \<Rightarrow> row \<Rightarrow> cell list" where
  "cells_of ns r = map (cell_of r) ns"

definition dtype_of :: "dataframe \<Rightarrow> string \<Rightarrow> string" where
  "dtype_of d n = (case map_of (dtypes d) n of None \<Rightarrow> ''object'' | Some t \<Rightarrow> t)"

text \<open>\<open>df[name]\<close>: the column as a list of cells; KeyError when there is no such column.\<close>

definition get_column :: "dataframe \<Rightarrow> string \<Rightarrow> error + cell list" where
  "get_column d n =
     (if n \<in> set (columns d) then Inr (map (\<lambda>(l, r). cell_of r n) (rows d))
      else Inl (KeyError n))"

text \<open>
  \<open>df[name] = values\<close> with an array or an \<open>Index\<close>: set by position, a new column goes
  last.
\<close>

definition set_column :: "dataframe \<Rightarrow> string \<Rightarrow> string \<Rightarrow> cell list \<Rightarrow> dataframe" where
  "set_column d n t vs =
     d\<lparr>columns := (if n \<in> set (columns d) then columns d else columns d @ [n]),
       dtypes := AList.update n t (dtypes d),
       rows := map (\<lambda>((l, r), v). (l, AList.update n v r)) (zip (rows d) vs)\<rparr>"

text \<open>
  \<open>df[name] = series\<close>: pandas aligns the series on the frame's index. When the two
  indexes are equal, or the frame is empty, the values are taken by position; otherwise
  the series is reindexed by label, which raises when its index has duplicates.
\<close>

definition set_column_series ::
  "dataframe \<Rightarrow> string \<Rightarrow> string \<Rightarrow> (cell \<times> cell) list \<Rightarrow> error + dataframe" where
  "set_column_series d n t s =
     (if map fst s = index d \<or> rows d = [] then Inr (set_column d n t (map snd s))
      else if distinct (map fst s) then
        Inr (set_column d n t
          (map (\<lambda>l. case map_of s l of None \<Rightarrow> Null | Some v \<Rightarrow> v) (index d)))
      else Inl (ValueError ''cannot reindex from a duplicate axis''))"

text \<open>
  \<open>df.drop(name, axis=1, inplace=True)\<close>: raises when there is no such column (KeyError
  in current pandas; old versions raise ValueError there).
\<close>

definition drop_column :: "dataframe \<Rightarrow> string \<Rightarrow> error + dataframe" where
  "drop_column d n =
     (if n \<in> set (columns d) then
        Inr (d\<lparr>columns := filter (\<lambda>c. c \<noteq> n) (columns d),
               dtypes := AList.delete n (dtypes d),
               rows := map (\<lambda>(l, r). (l, AList.delete n r)) (rows d)\<rparr>)
      else Inl (KeyError n))"

text \<open>\<open>df.columns = names\<close>: the columns are renamed by position.\<close>

definition rename_row :: "string list \<Rightarrow> string list \<Rightarrow> row \<Rightarrow> row" where
  "rename_row old new r = zip new (cells_of old r)"

definition rename_columns :: "dataframe \<Rightarrow> string list \<Rightarrow> error + dataframe" where
  "rename_columns d new =
     (if length new \<noteq> length (columns d) then Inl (ValueError ''Length mismatch'')
      else Inr (d\<lparr>columns := new,
                  dtypes := zip new (map (dtype_of d) (columns d)),
                  rows := map (\<lambda>(l, r). (l, rename_row (columns d) new r)) (rows d)\<rparr>))"

text \<open>\<open>df[names]\<close>: the sub-frame of the listed columns.\<close>

definition select_columns :: "dataframe \<Rightarrow> string list \<Rightarrow> error + dataframe" where
  "select_columns d ns =
     (case filter (\<lambda>n. n \<notin> set (columns d)) ns of
        m # _ \<Rightarrow> Inl (KeyError m)
      | [] \<Rightarrow> Inr (d\<lparr>columns := ns,
                      dtypes := map (\<lambda>n. (n, dtype_of d n)) ns,
                      rows := map (\<lambda>(l, r). (l, map (\<lambda>n. (n, cell_of r n)) ns)) (rows d)\<rparr>))"

text \<open>\<open>df[mask]\<close> with a boolean condition on the rows.\<close>

definition filter_rows :: "(row \<Rightarrow> bool) \<Rightarrow> dataframe \<Rightarrow> dataframe" where
  "filter_rows P d = d\<lparr>rows := filter (\<lambda>(l, r). P r) (rows d)\<rparr>"

subsection \<open>Lower case\<close>

text \<open>
  \<open>str.lower()\<close> on a column label. Labels are taken to be ASCII strings, on which it
  maps \<open>A\<close> to \<open>Z\<close> to \<open>a\<close> to \<open>z\<close> and leaves every other character; what Python does to
  the capitals of other scripts is outside the model.
\<close>

definition lower_char :: "char \<Rightarrow> char" where
  "lower_char c =
     (let n = (of_char c :: nat) in if 65 \<le> n \<and> n \<le> 90 then char_of (n + 32) else c)"

definition lower :: "string \<Rightarrow> string" where
  "lower s = map lower_char s"


section \<open>The pandas operations that the comparison calls\<close>

text \<open>
  \<open>index.duplicated()\<close>: marks every value that occurred before (\<open>keep='first'\<close>).
\<close>

fun duplicated_from :: "'a list \<Rightarrow> 'a list \<Rightarrow> bool list" where
  "duplicated_from seen [] = []"
| "duplicated_from seen (x # xs) = (x \<in> set seen) # duplicated_from (x # seen) xs"

definition duplicated :: "'a list \<Rightarrow> bool list" where
  "duplicated xs = duplicated_from [] xs"

text \<open>
  \<open>df.drop_duplicates(subset=names)\<close>: keeps the first row of every value of the listed
  columns. Missing values count as equal to each other, as in pandas. With an empty list
  of columns the pandas of the repository's time raises.
\<close>

fun drop_duplicates_rows :: "string list \<Rightarrow> (cell \<times> row) list \<Rightarrow> (cell \<times> row) list" where
  "drop_duplicates_rows ns [] = []"
| "drop_duplicates_rows ns (x # xs) =
     x # drop_duplicates_rows ns (filter (\<lambda>y. cells_of ns (snd y) \<noteq> cells_of ns (snd x)) xs)"

definition drop_duplicates :: "dataframe \<Rightarrow> string list \<Rightarrow> error + dataframe" where
  "drop_duplicates d ns =
     (if ns = [] then Inl (ValueError ''not enough values to unpack'')
      else case filter (\<lambda>n. n \<notin> set (columns d)) ns of
        m # _ \<Rightarrow> Inl (KeyError m)
      | [] \<Rightarrow> Inr (d\<lparr>rows := drop_duplicates_rows ns (rows d)\<rparr>))"

text \<open>
  \<open>df.sort_values(by=names)\<close>: a stable sort of the rows by the listed columns in
  ascending order, missing values last. With one column pandas compares the values
  themselves, and raises TypeError for a column that holds both strings and values of
  another type. With several columns it factorizes every column first, numbers before
  strings, and does not raise. Without a column the frame is returned as it is.
\<close>

definition sort_code :: "cell \<Rightarrow> nat \<times> real \<times> string" where
  "sort_code c = (case c of
       Num x \<Rightarrow> (0, x, [])
     | Bool b \<Rightarrow> (0, (if b then 1 else 0), [])
     | Str s \<Rightarrow> (1, 0, s)
     | Null \<Rightarrow> (2, 0, []))"

definition is_str :: "cell \<Rightarrow> bool" where
  "is_str c = (case c of Str s \<Rightarrow> True | _ \<Rightarrow> False)"

definition orderable :: "cell list \<Rightarrow> bool" where
  "orderable cs =
     ((\<forall>c \<in> set cs. is_str c \<or> isnull c) \<or> (\<forall>c \<in> set cs. \<not> is_str c))"

definition sort_values :: "dataframe \<Rightarrow> string list \<Rightarrow> error + dataframe" where
  "sort_values d ns =
     (case filter (\<lambda>n. n \<notin> set (columns d)) ns of
        m # _ \<Rightarrow> Inl (KeyError m)
      | [] \<Rightarrow>
        if length ns = 1 \<and> \<not> orderable (map (\<lambda>(l, r). cell_of r (hd ns)) (rows d))
        then Inl (TypeError ''values are not ordered'')
        else Inr (d\<lparr>rows := sort_key (\<lambda>(l, r). map sort_code (cells_of ns r)) (rows d)\<rparr>))"

text \<open>
  \<open>df.groupby(names).cumcount()\<close>: a series on the frame's index that numbers the rows
  of every group from 0 in the order of the frame. Rows are grouped by the values of the
  listed columns. A row with a missing value in one of these columns belongs to no group,
  and its number is missing.
\<close>

fun cumcount_from :: "'k list \<Rightarrow> 'k list \<Rightarrow> nat list" where
  "cumcount_from seen [] = []"
| "cumcount_from seen (k # ks) = count_list seen k # cumcount_from (k # seen) ks"

definition cumcount :: "'k list \<Rightarrow> nat list" where
  "cumcount ks = cumcount_from [] ks"

definition group_number :: "cell list \<times> nat \<Rightarrow> cell" where
  "group_number kn = (if Null \<in> set (fst kn) then Null else Num (real (snd kn)))"

definition groupby_cumcount :: "dataframe \<Rightarrow> string list \<Rightarrow> error + (cell \<times> cell) list" where
  "groupby_cumcount d ns =
     (case filter (\<lambda>n. n \<notin> set (columns d)) ns of
        m # _ \<Rightarrow> Inl (KeyError m)
      | [] \<Rightarrow>
          (let ks = map (\<lambda>(l, r). cells_of ns r) (rows d)
           in Inr (zip (index d) (map group_number (zip ks (cumcount ks))))))"

subsection \<open>The outer merge\<close>

text \<open>
  \<open>left.merge(right, how='outer', suffixes=('_df1', '_df2'), indicator=True, ...)\<close>,
  either on a list of columns or on the index of both frames. Every pair of a left and a
  right row with equal keys gives a row marked \<open>both\<close>; a row without a partner gives a
  row marked \<open>left_only\<close> or \<open>right_only\<close>, the other side's cells missing. Two missing
  key values are equal to each other.

  pandas orders the rows of an outer merge by key. The model keeps the order of the left
  frame and puts the unmatched right rows last; the order of the rows is not looked at
  below.
\<close>

datatype merge_params = On "string list" | OnIndex

definition join_pairs ::
  "('a \<Rightarrow> 'k) \<Rightarrow> ('b \<Rightarrow> 'k) \<Rightarrow> 'a list \<Rightarrow> 'b list \<Rightarrow> ('a option \<times> 'b option) list" where
  "join_pairs kl kr L R =
     concat (map (\<lambda>l. case filter (\<lambda>r. kr r = kl l) R of
                         [] \<Rightarrow> [(Some l, None)]
                       | m # ms \<Rightarrow> map (\<lambda>r. (Some l, Some r)) (m # ms)) L)
     @ map (\<lambda>r. (None, Some r)) (filter (\<lambda>r. \<not> (\<exists>l \<in> set L. kl l = kr r)) R)"

text \<open>
  A column that both frames have, and that is not a key of the merge, gets the suffix of
  its side. Key columns and columns of one side only keep their label.
\<close>

definition suffixed :: "string list \<Rightarrow> string list \<Rightarrow> string \<Rightarrow> string \<Rightarrow> string" where
  "suffixed keys other suffix c = (if c \<notin> set keys \<and> c \<in> set other then c @ suffix else c)"

definition merged_columns :: "string list \<Rightarrow> string list \<Rightarrow> string list \<Rightarrow> string list" where
  "merged_columns keys lcols rcols =
     map (suffixed keys rcols ''_df1'') lcols
     @ map (suffixed keys lcols ''_df2'') (filter (\<lambda>c. c \<notin> set keys) rcols)
     @ [''_merge'']"

fun merged_row ::
  "string list \<Rightarrow> string list \<Rightarrow> string list \<Rightarrow> (cell \<times> row) option \<times> (cell \<times> row) option \<Rightarrow> row" where
  "merged_row keys lcols rcols (Some (ll, l), Some (lr, r)) =
     (''_merge'', Str ''both'')
     # map (\<lambda>c. (suffixed keys rcols ''_df1'' c, cell_of l c)) lcols
     @ map (\<lambda>c. (suffixed keys lcols ''_df2'' c, cell_of r c)) (filter (\<lambda>c. c \<notin> set keys) rcols)"
| "merged_row keys lcols rcols (Some (ll, l), None) =
     (''_merge'', Str ''left_only'')
     # map (\<lambda>c. (suffixed keys rcols ''_df1'' c, cell_of l c)) lcols
     @ map (\<lambda>c. (suffixed keys lcols ''_df2'' c, Null)) (filter (\<lambda>c. c \<notin> set keys) rcols)"
| "merged_row keys lcols rcols (None, Some (lr, r)) =
     (''_merge'', Str ''right_only'')
     # map (\<lambda>c. (suffixed keys rcols ''_df1'' c, if c \<in> set keys then cell_of r c else Null)) lcols
     @ map (\<lambda>c. (suffixed keys lcols ''_df2'' c, cell_of r c)) (filter (\<lambda>c. c \<notin> set keys) rcols)"
| "merged_row keys lcols rcols (None, None) = [(''_merge'', Null)]"

fun merged_label :: "(cell \<times> row) option \<times> (cell \<times> row) option \<Rightarrow> cell" where
  "merged_label (Some (ll, l), _) = ll"
| "merged_label (None, Some (lr, r)) = lr"
| "merged_label (None, None) = Null"

definition merged_dtypes :: "string list \<Rightarrow> dataframe \<Rightarrow> dataframe \<Rightarrow> (string \<times> string) list" where
  "merged_dtypes keys left right =
     map (\<lambda>c. (suffixed keys (columns right) ''_df1'' c, dtype_of left c)) (columns left)
     @ map (\<lambda>c. (suffixed keys (columns left) ''_df2'' c, dtype_of right c))
          (filter (\<lambda>c. c \<notin> set keys) (columns right))
     @ [(''_merge'', ''category'')]"

definition range_index :: "nat \<Rightarrow> cell list" where
  "range_index n = map (\<lambda>i. Num (real i)) [0..<n]"

definition merge_outer :: "dataframe \<Rightarrow> dataframe \<Rightarrow> merge_params \<Rightarrow> error + dataframe" where
  "merge_outer left right params =
     (if ''_merge'' \<in> set (columns left) \<union> set (columns right)
      then Inl (ValueError ''Cannot use name of an existing column for indicator column'')
      else case params of
        On keys \<Rightarrow>
          (if keys = [] then Inl (MergeError ''No key to perform merge on'')
           else case filter (\<lambda>k. k \<notin> set (columns left) \<or> k \<notin> set (columns right)) keys of
             m # _ \<Rightarrow> Inl (KeyError m)
           | [] \<Rightarrow>
             if \<not> distinct (merged_columns keys (columns left) (columns right))
             then Inl (MergeError ''suffixes cause duplicate columns'')
             else
               (let ps = join_pairs (\<lambda>x. cells_of keys (snd x)) (\<lambda>x. cells_of keys (snd x))
                           (rows left) (rows right)
                in Inr \<lparr>columns = merged_columns keys (columns left) (columns right),
                        dtypes = merged_dtypes keys left right,
                        rows = zip (range_index (length ps))
                                 (map (merged_row keys (columns left) (columns right)) ps)\<rparr>))
      | OnIndex \<Rightarrow>
          if \<not> distinct (merged_columns [] (columns left) (columns right))
          then Inl (MergeError ''suffixes cause duplicate columns'')
          else
            (let ps = join_pairs fst fst (rows left) (rows right)
             in Inr \<lparr>columns = merged_columns [] (columns left) (columns right),
                     dtypes = merged_dtypes [] left right,
                     rows = map (\<lambda>p. (merged_label p,
                                   merged_row [] (columns left) (columns right) p)) ps\<rparr>))"

text \<open>\<open>df.index = df[name]\<close>.\<close>

definition set_index_from :: "dataframe \<Rightarrow> string \<Rightarrow> error + dataframe" where
  "set_index_from d n =
     (if n \<in> set (columns d) then Inr (d\<lparr>rows := map (\<lambda>(l, r). (cell_of r n, r)) (rows d)\<rparr>)
      else Inl (KeyError n))"


section \<open>The helpers of \<open>datacompy.utils\<close>\<close>

text \<open>
  Modelled from the spec: \<open>utils.temp_column_name\<close> is not among the sources. Section
  4.2 of the spec only asks for a synthesized column beside the columns of the two
  datasets, so the model returns a label longer than every label of the two frames.
\<close>

definition temp_column_name :: "dataframe \<Rightarrow> dataframe \<Rightarrow> string" where
  "temp_column_name a b =
     ''_temp_'' @ replicate (fold max (map length (columns a @ columns b)) 0) CHR ''0''"

text \<open>
  Modelled from the spec: \<open>utils.get_merged_columns\<close> is not among the sources. By section
  4.3 of the spec a column of a dataset is found in the merge result under its own label
  (a join key, or a column of one side only) or under its label with the suffix of its
  side.
\<close>

definition get_merged_columns :: "dataframe \<Rightarrow> dataframe \<Rightarrow> string \<Rightarrow> error + string list" where
  "get_merged_columns original merged suffix =
     (case filter (\<lambda>c. c \<notin> set (columns merged) \<and> c @ suffix \<notin> set (columns merged))
             (columns original) of
        m # _ \<Rightarrow> Inl (ValueError m)
      | [] \<Rightarrow> Inr (map (\<lambda>c. if c \<in> set (columns merged) then c else c @ suffix)
                   (columns original)))"

text \<open>
  Modelled from the spec: \<open>utils.columns_equal\<close> is not among the sources. Section 4.4 of
  the spec gives its rule for one pair of values, in priority order: both missing is
  equal; one missing is not equal; two numbers are equal when
  \<open>abs (left - right) \<le> abs_tol + rel_tol * abs right\<close>; anything else is equal when the
  values are the same. It never raises.
\<close>

definition value_equal :: "real \<Rightarrow> real \<Rightarrow> cell \<Rightarrow> cell \<Rightarrow> bool" where
  "value_equal rtol atol a b =
     (if isnull a \<and> isnull b then True
      else if isnull a \<or> isnull b then False
      else case (a, b) of
        (Num x, Num y) \<Rightarrow> \<bar>x - y\<bar> \<le> atol + rtol * \<bar>y\<bar>
      | _ \<Rightarrow> a = b)"

definition columns_equal :: "cell list \<Rightarrow> cell list \<Rightarrow> real \<Rightarrow> real \<Rightarrow> cell list" where
  "columns_equal col_1 col_2 rtol atol =
     map (\<lambda>(a, b). Bool (value_equal rtol atol a b)) (zip col_1 col_2)"


section \<open>The class \<open>Compare\<close>\<close>

text \<open>
  The caller's data frames live in a store; the comparison holds references to them and
  changes them in place, as the Python does. An argument of the constructor is a
  reference to a data frame or some other object. The argument \<open>join_columns\<close> is
  \<open>None\<close>, a string or a list of strings.
\<close>

type_synonym store = "nat \<Rightarrow> dataframe"

datatype pyarg = DataFrameRef nat | OtherObject

datatype join_arg = JNone | JStr string | JList "string list"

record column_stat =
  column :: string
  match_column :: string
  match_cnt :: int
  unequal_cnt :: int
  dtype1 :: string
  dtype2 :: string
  all_match :: bool
  max_diff :: cell
  null_diff :: int

record comparison =
  join_columns :: "string list"
  on_index :: bool
  any_dupes :: bool
  df1 :: nat
  df2 :: nat
  df1_name :: string
  df2_name :: string
  abs_tol :: real
  rel_tol :: real
  df1_unq_rows :: "dataframe option"
  df2_unq_rows :: "dataframe option"
  intersect_rows :: "dataframe option"
  column_stats :: "column_stat list"

subsection \<open>Validation\<close>

text \<open>
  \<open>_validate_dataframe\<close>, called by the setters of \<open>df1\<close> and \<open>df2\<close>. It gets the
  object that the attribute holds, lowers the column labels of the frame in place, and
  returns the new value of \<open>_any_dupes\<close> together with the reference.
\<close>

definition validate_dataframe ::
  "store \<Rightarrow> string list \<Rightarrow> bool \<Rightarrow> bool \<Rightarrow> string \<Rightarrow> pyarg \<Rightarrow> error + (store \<times> bool \<times> nat)" where
  "validate_dataframe st join_cols on_idx dupes idx obj =
     (case obj of
        OtherObject \<Rightarrow> Inl (TypeError (idx @ '' must be a pandas DataFrame''))
      | DataFrameRef r \<Rightarrow>
          bind_err (rename_columns (st r) (map lower (columns (st r)))) (\<lambda>d.
          let st' = st(r := d) in
          if \<not> set join_cols \<subseteq> set (columns d)
          then Inl (ValueError (idx @ '' must have all columns from join_columns''))
          else if card (set (columns d)) < length (columns d)
          then Inl (ValueError (idx @ '' must have unique column names''))
          else if on_idx
          then Inr (st', (if 0 < length (filter id (duplicated (index d))) then True else dupes), r)
          else bind_err (drop_duplicates d join_cols) (\<lambda>dd.
               Inr (st', (if len dd < len d then True else dupes), r))))"

text \<open>The assignments of \<open>__init__\<close>, up to the call of \<open>_compare\<close>.\<close>

definition init_attributes ::
  "store \<Rightarrow> pyarg \<Rightarrow> pyarg \<Rightarrow> join_arg \<Rightarrow> bool \<Rightarrow> real \<Rightarrow> real \<Rightarrow> string \<Rightarrow> string
     \<Rightarrow> error + (store \<times> comparison)" where
  "init_attributes st a1 a2 join_cols_arg on_idx atol rtol name1 name2 =
     bind_err
       (if on_idx \<and> join_cols_arg \<noteq> JNone
        then Inl (Exception ''Only provide on_index or join_columns'')
        else if on_idx then Inr ([], True)
        else case join_cols_arg of
          JStr s \<Rightarrow> Inr ([lower s], False)
        | JList cs \<Rightarrow> Inr (map lower cs, False)
        | JNone \<Rightarrow> Inl (TypeError ''NoneType object is not iterable''))
       (\<lambda>(join_cols, on_idx').
     bind_err (validate_dataframe st join_cols on_idx' False ''df1'' a1) (\<lambda>(st1, dupes1, r1).
     bind_err (validate_dataframe st1 join_cols on_idx' dupes1 ''df2'' a2) (\<lambda>(st2, dupes2, r2).
     Inr (st2,
       \<lparr>join_columns = join_cols, on_index = on_idx', any_dupes = dupes2,
        df1 = r1, df2 = r2, df1_name = name1, df2_name = name2,
        abs_tol = atol, rel_tol = rtol,
        df1_unq_rows = None, df2_unq_rows = None, intersect_rows = None,
        column_stats = []\<rparr>))))"

subsection \<open>Column sets\<close>

definition df1_unq_columns :: "store \<Rightarrow> comparison \<Rightarrow> string set" where
  "df1_unq_columns st self = set (columns (st (df1 self))) - set (columns (st (df2 self)))"

definition df2_unq_columns :: "store \<Rightarrow> comparison \<Rightarrow> string set" where
  "df2_unq_columns st self = set (columns (st (df2 self))) - set (columns (st (df1 self)))"

text \<open>
  \<open>intersect_columns\<close> returns a Python set, and the loops below iterate over it in an
  order that Python does not fix. The model lists the set in the order of \<open>df1\<close>.
\<close>

definition intersect_columns :: "store \<Rightarrow> comparison \<Rightarrow> string list" where
  "intersect_columns st self =
     remdups (filter (\<lambda>c. c \<in> set (columns (st (df2 self)))) (columns (st (df1 self))))"

subsection \<open>The merge\<close>

text \<open>
  The branch of \<open>_dataframe_merge\<close> for duplicate keys: bring the index into a column
  when joining on the index, then number the rows of every key in the order of all
  columns. The result is the new store, the index column if there is one, the order
  column and the parameters of the merge.
\<close>

definition attach_temp_columns ::
  "store \<Rightarrow> comparison \<Rightarrow> error + (store \<times> string option \<times> string \<times> merge_params)" where
  "attach_temp_columns st self =
     bind_err
       (if on_index self then
          (let index_column = temp_column_name (st (df1 self)) (st (df2 self));
               st1 = st(df1 self :=
                       set_column (st (df1 self)) index_column ''object'' (index (st (df1 self))));
               st2 = st1(df2 self :=
                       set_column (st1 (df2 self)) index_column ''object'' (index (st1 (df2 self))))
           in Inr (st2, Some index_column, [index_column]))
        else Inr (st, None, join_columns self))
       (\<lambda>(st2, index_column, temp_join_columns).
     let order_column = temp_column_name (st2 (df1 self)) (st2 (df2 self)) in
     bind_err (sort_values (st2 (df1 self)) (columns (st2 (df1 self)))) (\<lambda>sorted1.
     bind_err (groupby_cumcount sorted1 temp_join_columns) (\<lambda>order1.
     bind_err (set_column_series (st2 (df1 self)) order_column ''int64'' order1) (\<lambda>d1.
     let st3 = st2(df1 self := d1) in
     bind_err (sort_values (st3 (df2 self)) (columns (st3 (df2 self)))) (\<lambda>sorted2.
     bind_err (groupby_cumcount sorted2 temp_join_columns) (\<lambda>order2.
     bind_err (set_column_series (st3 (df2 self)) order_column ''int64'' order2) (\<lambda>d2.
     Inr (st3(df2 self := d2), index_column, order_column,
          On (temp_join_columns @ [order_column])))))))))"

text \<open>
  The clean-up of the temporary columns after the merge. The index column exists exactly
  when the comparison is on the index.
\<close>

definition drop_temp_columns ::
  "store \<Rightarrow> comparison \<Rightarrow> dataframe \<Rightarrow> string option \<Rightarrow> string \<Rightarrow> error + (store \<times> dataframe)" where
  "drop_temp_columns st self outer_join index_column order_column =
     bind_err
       (case index_column of
          None \<Rightarrow> Inr (st, outer_join)
        | Some ic \<Rightarrow>
            bind_err (set_index_from outer_join ic) (\<lambda>oj1.
            bind_err (drop_column oj1 ic) (\<lambda>oj2.
            bind_err (drop_column (st (df1 self)) ic) (\<lambda>d1.
            let st1 = st(df1 self := d1) in
            bind_err (drop_column (st1 (df2 self)) ic) (\<lambda>d2.
            Inr (st1(df2 self := d2), oj2))))))
       (\<lambda>(st2, oj).
     bind_err (drop_column oj order_column) (\<lambda>oj3.
     bind_err (drop_column (st2 (df1 self)) order_column) (\<lambda>d1.
     let st3 = st2(df1 self := d1) in
     bind_err (drop_column (st3 (df2 self)) order_column) (\<lambda>d2.
     Inr (st3(df2 self := d2), oj3)))))"

definition dataframe_merge :: "store \<Rightarrow> comparison \<Rightarrow> error + (store \<times> comparison)" where
  "dataframe_merge st self =
     bind_err
       (if any_dupes self then
          bind_err (attach_temp_columns st self) (\<lambda>(st1, index_column, order_column, params).
          Inr (st1, Some (index_column, order_column), params))
        else if on_index self then Inr (st, None, OnIndex)
        else Inr (st, None, On (join_columns self)))
       (\<lambda>(st1, temps, params).
     bind_err (merge_outer (st1 (df1 self)) (st1 (df2 self)) params) (\<lambda>outer_join.
     bind_err
       (case temps of
          None \<Rightarrow> Inr (st1, outer_join)
        | Some (index_column, order_column) \<Rightarrow>
            drop_temp_columns st1 self outer_join index_column order_column)
       (\<lambda>(st2, oj).
     bind_err (get_merged_columns (st2 (df1 self)) oj ''_df1'') (\<lambda>df1_cols.
     bind_err (get_merged_columns (st2 (df2 self)) oj ''_df2'') (\<lambda>df2_cols.
     bind_err (select_columns
                 (filter_rows (\<lambda>r. cell_of r ''_merge'' = Str ''left_only'') oj) df1_cols) (\<lambda>u1.
     bind_err (rename_columns u1 (columns (st2 (df1 self)))) (\<lambda>unq1.
     bind_err (select_columns
                 (filter_rows (\<lambda>r. cell_of r ''_merge'' = Str ''right_only'') oj) df2_cols) (\<lambda>u2.
     bind_err (rename_columns u2 (columns (st2 (df2 self)))) (\<lambda>unq2.
     Inr (st2, self\<lparr>df1_unq_rows := Some unq1, df2_unq_rows := Some unq2,
                    intersect_rows :=
                      Some (filter_rows (\<lambda>r. cell_of r ''_merge'' = Str ''both'') oj)\<rparr>))))))))))"

subsection \<open>Comparing the shared columns\<close>

text \<open>
  \<open>(col_1 - col_2).abs().max()\<close> inside \<open>try\<close>: the subtraction raises on cells that are
  not numbers, and the \<open>except\<close> branch gives 0. The maximum skips missing differences and
  is missing itself when there is none. Numbers are real numbers here: the wrap-around of
  \<open>int64\<close> and the rounding of \<open>float64\<close> in the subtraction are outside the model, and
  no property below is about \<open>max_diff\<close>.
\<close>

definition is_numeric :: "cell \<Rightarrow> bool" where
  "is_numeric c = (case c of Num x \<Rightarrow> True | Null \<Rightarrow> True | _ \<Rightarrow> False)"

definition abs_diffs :: "cell list \<Rightarrow> cell list \<Rightarrow> real list" where
  "abs_diffs c1 c2 =
     List.map_filter (\<lambda>(a, b). case (a, b) of (Num x, Num y) \<Rightarrow> Some \<bar>x - y\<bar> | _ \<Rightarrow> None)
       (zip c1 c2)"

definition max_abs_diff :: "cell list \<Rightarrow> cell list \<Rightarrow> cell" where
  "max_abs_diff c1 c2 =
     (if \<forall>c \<in> set (c1 @ c2). is_numeric c
      then (case abs_diffs c1 c2 of [] \<Rightarrow> Null | x # xs \<Rightarrow> Num (fold max xs x))
      else Num 0)"

definition null_xor_count :: "cell list \<Rightarrow> cell list \<Rightarrow> int" where
  "null_xor_count c1 c2 = int (length (filter (\<lambda>(a, b). isnull a \<noteq> isnull b) (zip c1 c2)))"

text \<open>\<open>series.sum()\<close> of a boolean column: the number of \<open>True\<close> cells.\<close>

definition sum_true :: "cell list \<Rightarrow> int" where
  "sum_true cs = int (length (filter (\<lambda>c. c = Bool True) cs))"

text \<open>One turn of the loop of \<open>_intersect_compare\<close>.\<close>

definition compare_column :: "store \<Rightarrow> int \<Rightarrow> comparison \<Rightarrow> string \<Rightarrow> error + comparison" where
  "compare_column st row_cnt self col =
     bind_err
       (if col \<in> set (join_columns self) then Inr (self, row_cnt, [], Num 0, 0)
        else
          (let col_1 = col @ ''_df1''; col_2 = col @ ''_df2''; col_match = col @ ''_match'' in
           case intersect_rows self of
             None \<Rightarrow> Inl (TypeError ''NoneType object is not subscriptable'')
           | Some ir \<Rightarrow>
               bind_err (get_column ir col_1) (\<lambda>c1.
               bind_err (get_column ir col_2) (\<lambda>c2.
               let ir' = set_column ir col_match ''bool''
                           (columns_equal c1 c2 (rel_tol self) (abs_tol self)) in
               bind_err (get_column ir' col_match) (\<lambda>m.
               bind_err (get_column ir' col_1) (\<lambda>c1'.
               bind_err (get_column ir' col_2) (\<lambda>c2'.
               Inr (self\<lparr>intersect_rows := Some ir'\<rparr>, sum_true m, col_match,
                    max_abs_diff c1' c2', null_xor_count c1' c2'))))))))
       (\<lambda>(self', match_count, col_match, max_d, null_d).
          Inr (self'\<lparr>column_stats := column_stats self' @
                 [\<lparr>column = col, match_column = col_match, match_cnt = match_count,
                   unequal_cnt = row_cnt - match_count,
                   dtype1 = dtype_of (st (df1 self')) col,
                   dtype2 = dtype_of (st (df2 self')) col,
                   all_match = (dtype_of (st (df1 self')) col = dtype_of (st (df2 self')) col
                                \<and> row_cnt = match_count),
                   max_diff = max_d, null_diff = null_d\<rparr>]\<rparr>))"

fun intersect_compare_loop ::
  "store \<Rightarrow> int \<Rightarrow> string list \<Rightarrow> comparison \<Rightarrow> error + comparison" where
  "intersect_compare_loop st row_cnt [] self = Inr self"
| "intersect_compare_loop st row_cnt (c # cs) self =
     bind_err (compare_column st row_cnt self c) (intersect_compare_loop st row_cnt cs)"

definition intersect_compare :: "store \<Rightarrow> comparison \<Rightarrow> error + comparison" where
  "intersect_compare st self =
     (case intersect_rows self of
        None \<Rightarrow> Inl (TypeError ''object of type NoneType has no len()'')
      | Some ir \<Rightarrow> intersect_compare_loop st (int (len ir)) (intersect_columns st self) self)"

subsection \<open>The predicates\<close>

definition all_columns_match :: "store \<Rightarrow> comparison \<Rightarrow> bool" where
  "all_columns_match st self =
     (df1_unq_columns st self = df2_unq_columns st self \<and> df2_unq_columns st self = {})"

definition all_rows_overlap :: "comparison \<Rightarrow> error + bool" where
  "all_rows_overlap self =
     (case (df1_unq_rows self, df2_unq_rows self) of
        (Some u1, Some u2) \<Rightarrow> Inr (len u1 = len u2 \<and> len u2 = 0)
      | _ \<Rightarrow> Inl (TypeError ''object of type NoneType has no len()''))"

text \<open>
  \<open>frame.all(axis=1)\<close> reads every cell as a truth value; a missing value is skipped.
\<close>

definition truthy :: "cell \<Rightarrow> bool" where
  "truthy c = (case c of Bool b \<Rightarrow> b | Num x \<Rightarrow> x \<noteq> 0 | Str s \<Rightarrow> s \<noteq> [] | Null \<Rightarrow> True)"

definition match_columns_of :: "store \<Rightarrow> comparison \<Rightarrow> string list" where
  "match_columns_of st self =
     map (\<lambda>c. c @ ''_match'')
       (filter (\<lambda>c. c \<notin> set (join_columns self)) (intersect_columns st self))"

definition count_matching_rows :: "store \<Rightarrow> comparison \<Rightarrow> error + int" where
  "count_matching_rows st self =
     (case intersect_rows self of
        None \<Rightarrow> Inl (TypeError ''NoneType object is not subscriptable'')
      | Some ir \<Rightarrow>
          bind_err (select_columns ir (match_columns_of st self)) (\<lambda>m.
          Inr (int (length (filter (\<lambda>(l, r). \<forall>c \<in> set (columns m). truthy (cell_of r c))
                              (rows m))))))"

definition intersect_rows_match :: "store \<Rightarrow> comparison \<Rightarrow> error + bool" where
  "intersect_rows_match st self =
     (case intersect_rows self of
        None \<Rightarrow> Inl (TypeError ''NoneType object has no attribute shape'')
      | Some ir \<Rightarrow>
          bind_err (count_matching_rows st self) (\<lambda>n. Inr (n = int (len ir))))"

definition matches :: "store \<Rightarrow> comparison \<Rightarrow> bool \<Rightarrow> error + bool" where
  "matches st self ignore_extra_columns =
     (if \<not> ignore_extra_columns \<and> \<not> all_columns_match st self then Inr False
      else bind_err (all_rows_overlap self) (\<lambda>overlap.
        if \<not> overlap then Inr False
        else bind_err (intersect_rows_match st self) (\<lambda>m.
          if \<not> m then Inr False else Inr True)))"

definition subset :: "store \<Rightarrow> comparison \<Rightarrow> error + bool" where
  "subset st self =
     (if \<not> df2_unq_columns st self = {} then Inr False
      else case df2_unq_rows self of
        None \<Rightarrow> Inl (TypeError ''object of type NoneType has no len()'')
      | Some u2 \<Rightarrow>
          if \<not> len u2 = 0 then Inr False
          else bind_err (intersect_rows_match st self) (\<lambda>m.
            if \<not> m then Inr False else Inr True))"

subsection \<open>The constructor\<close>

text \<open>
  \<open>_compare\<close>: apart from logging it merges, compares the shared columns and calls
  \<open>matches()\<close> for the log.
\<close>

definition compare :: "store \<Rightarrow> comparison \<Rightarrow> error + (store \<times> comparison)" where
  "compare st self =
     bind_err (dataframe_merge st self) (\<lambda>(st1, self1).
     bind_err (intersect_compare st1 self1) (\<lambda>self2.
     bind_err (matches st1 self2 False) (\<lambda>m. Inr (st1, self2))))"

definition init ::
  "store \<Rightarrow> pyarg \<Rightarrow> pyarg \<Rightarrow> join_arg \<Rightarrow> bool \<Rightarrow> real \<Rightarrow> real \<Rightarrow> string \<Rightarrow> string
     \<Rightarrow> error + (store \<times> comparison)" where
  "init st a1 a2 join_cols_arg on_idx atol rtol name1 name2 =
     bind_err (init_attributes st a1 a2 join_cols_arg on_idx atol rtol name1 name2)
       (\<lambda>(st1, self). compare st1 self)"

subsection \<open>Sampling the mismatches\<close>

text \<open>
  \<open>frame.sample(n)\<close> draws \<open>n\<close> rows without replacement. The random source is a
  parameter: a list of numbers, one for each draw, that picks among the rows not yet
  drawn. pandas raises when \<open>n\<close> is negative or larger than the frame.
\<close>

fun sample_list :: "nat list \<Rightarrow> nat \<Rightarrow> 'a list \<Rightarrow> 'a list" where
  "sample_list rnd 0 xs = []"
| "sample_list rnd (Suc n) [] = []"
| "sample_list rnd (Suc n) (x # xs) =
     (let i = (case rnd of [] \<Rightarrow> 0 | k # ks \<Rightarrow> k mod length (x # xs))
      in (x # xs) ! i # sample_list (tl rnd) n (take i (x # xs) @ drop (Suc i) (x # xs)))"

definition sample :: "nat list \<Rightarrow> dataframe \<Rightarrow> int \<Rightarrow> error + dataframe" where
  "sample rnd d n =
     (if n < 0 then Inl (ValueError ''A negative number of rows requested'')
      else if int (len d) < n
      then Inl (ValueError ''Cannot take a larger sample than population'')
      else Inr (d\<lparr>rows := sample_list rnd (nat n) (rows d)\<rparr>))"

definition sample_mismatch ::
  "nat list \<Rightarrow> comparison \<Rightarrow> string \<Rightarrow> int \<Rightarrow> bool \<Rightarrow> error + dataframe" where
  "sample_mismatch rnd self col sample_count for_display =
     (case intersect_rows self of
        None \<Rightarrow> Inl (TypeError ''NoneType object has no attribute shape'')
      | Some ir \<Rightarrow>
          bind_err (get_column ir (col @ ''_match'')) (\<lambda>col_match.
          let row_cnt = int (len ir);
              match_count = sum_true col_match;
              sample_count' = min sample_count (row_cnt - match_count) in
          bind_err (sample rnd (filter_rows (\<lambda>r. cell_of r (col @ ''_match'') = Bool False) ir)
                      sample_count') (\<lambda>smp.
          bind_err (select_columns smp (join_columns self @ [col @ ''_df1'', col @ ''_df2''])) (\<lambda>to_return.
          if for_display
          then rename_columns to_return
                 (join_columns self @
                  [col @ '' ('' @ df1_name self @ '')'', col @ '' ('' @ df2_name self @ '')''])
          else Inr to_return))))"

section \<open>Definitions for the proofs\<close>

text \<open>
  What one turn of the comparison loop does to a row and to the frame of the matched
  rows, the frame after \<open>dataframe.columns = [col.lower() ...]\<close>, the columns that the
  loop compares, and the relation between the fields of a column's statistics.
\<close>

definition add_match :: "real \<Rightarrow> real \<Rightarrow> string \<Rightarrow> row \<Rightarrow> row" where
  "add_match rtol atol c r =
     AList.update (c @ ''_match'')
       (Bool (value_equal rtol atol (cell_of r (c @ ''_df1'')) (cell_of r (c @ ''_df2'')))) r"

definition add_match_frame :: "real \<Rightarrow> real \<Rightarrow> string \<Rightarrow> dataframe \<Rightarrow> dataframe" where
  "add_match_frame rtol atol c d =
     d\<lparr>columns := (if c @ ''_match'' \<in> set (columns d) then columns d else columns d @ [c @ ''_match'']),
       dtypes := AList.update (c @ ''_match'') ''bool'' (dtypes d),
       rows := map (\<lambda>(l, r). (l, add_match rtol atol c r)) (rows d)\<rparr>"

definition stat_ok :: "column_stat \<Rightarrow> bool" where
  "stat_ok s = (all_match s \<longleftrightarrow> dtype1 s = dtype2 s \<and> unequal_cnt s = 0)"

definition add_matches :: "real \<Rightarrow> real \<Rightarrow> string list \<Rightarrow> dataframe \<Rightarrow> dataframe" where
  "add_matches rtol atol cs d = fold (add_match_frame rtol atol) cs d"

definition lowered :: "dataframe \<Rightarrow> dataframe" where
  "lowered d =
     d\<lparr>columns := map lower (columns d),
       dtypes := zip (map lower (columns d)) (map (dtype_of d) (columns d)),
       rows := map (\<lambda>(l, r). (l, rename_row (columns d) (map lower (columns d)) r)) (rows d)\<rparr>"

definition compared_columns :: "store \<Rightarrow> comparison \<Rightarrow> string list" where
  "compared_columns st self =
     filter (\<lambda>c. c \<notin> set (join_columns self)) (intersect_columns st self)"

definition row_matches :: "string list \<Rightarrow> cell \<times> row \<Rightarrow> bool" where
  "row_matches cs x = (\<forall>c \<in> set cs. cell_of (snd x) (c @ ''_match'') = Bool True)"

definition temp_list :: "string option \<Rightarrow> string list" where
  "temp_list ix = (case ix of None \<Rightarrow> [] | Some ic \<Rightarrow> [ic])"

definition resolve_join :: "join_arg \<Rightarrow> bool \<Rightarrow> string list" where
  "resolve_join jc oi =
     (if oi then []
      else case jc of JStr s \<Rightarrow> [lower s] | JList cs \<Rightarrow> map lower cs | JNone \<Rightarrow> [])"

definition values_match :: "real \<Rightarrow> real \<Rightarrow> string list \<Rightarrow> cell \<times> row \<Rightarrow> bool" where
  "values_match rtol atol cs x =
     (\<forall>c \<in> set cs. value_equal rtol atol (cell_of (snd x) (c @ ''_df1'')) (cell_of (snd x) (c @ ''_df2'')))"

text \<open>
  The mark that \<open>indicator=True\<close> gives to a pair of the join, the number of rows of a
  merged frame with a given mark, and the key of a row under the parameters of a merge.
\<close>

definition indicator :: "'a option \<times> 'b option \<Rightarrow> cell" where
  "indicator p = (case p of
       (Some l, Some r) \<Rightarrow> Str ''both''
     | (Some l, None) \<Rightarrow> Str ''left_only''
     | (None, Some r) \<Rightarrow> Str ''right_only''
     | (None, None) \<Rightarrow> Null)"

definition marked :: "string \<Rightarrow> dataframe \<Rightarrow> nat" where
  "marked m d = length (filter (\<lambda>x. cell_of (snd x) ''_merge'' = Str m) (rows d))"

definition merge_key :: "merge_params \<Rightarrow> cell \<times> row \<Rightarrow> cell list" where
  "merge_key params x = (case params of On keys \<Rightarrow> cells_of keys (snd x) | OnIndex \<Rightarrow> [fst x])"

text \<open>
  A frame is tidy when every row and the list of dtypes have exactly the labels of the
  columns, in their order. The frame that the validation leaves is tidy.
\<close>

definition tidy :: "dataframe \<Rightarrow> bool" where
  "tidy d = ((\<forall>x \<in> set (rows d). map fst (snd x) = columns d) \<and> map fst (dtypes d) = columns d)"

text \<open>
  What an entry of \<open>column_stats\<close> says about its column, given the two frames, the join
  columns, the tolerances and the frame of the matched rows.
\<close>

definition entry_ok ::
  "dataframe \<Rightarrow> dataframe \<Rightarrow> string list \<Rightarrow> real \<Rightarrow> real \<Rightarrow> dataframe \<Rightarrow> column_stat \<Rightarrow> bool" where
  "entry_ok d1 d2 jc rtol atol ir s =
     (dtype1 s = dtype_of d1 (column s) \<and> dtype2 s = dtype_of d2 (column s)
      \<and> unequal_cnt s = int (len ir) - match_cnt s
      \<and> all_match s = (dtype1 s = dtype2 s \<and> unequal_cnt s = 0)
      \<and> (if column s \<in> set jc then match_column s = [] \<and> match_cnt s = int (len ir)
          else match_column s = column s @ ''_match''
             \<and> match_cnt s = int (length (filter
                   (\<lambda>x. value_equal rtol atol (cell_of (snd x) (column s @ ''_df1''))
                                               (cell_of (snd x) (column s @ ''_df2'')))
                   (rows ir)))))"

text \<open>
  No key of the comparison is missing in a frame: no index label when the comparison is on
  the index, no value of a join column otherwise.
\<close>

definition keys_complete :: "string list \<Rightarrow> bool \<Rightarrow> dataframe \<Rightarrow> bool" where
  "keys_complete jc oi d =
     (if oi then Null \<notin> set (index d)
      else (\<forall>x \<in> set (rows d). Null \<notin> set (cells_of jc (snd x))))"

subsection \<open>Example inputs\<close>

text \<open>
  \<open>pd.DataFrame(...)\<close> with the default index 0, 1, 2, ... and one dtype for all columns.
  The first example is the scenario of the spec's section 8, with the key column of the
  left frame in upper case; the second a frame with a duplicate key.
\<close>

definition frame :: "string list \<Rightarrow> string \<Rightarrow> cell list list \<Rightarrow> dataframe" where
  "frame cs t rs =
     \<lparr>columns = cs, dtypes = map (\<lambda>c. (c, t)) cs,
      rows = zip (range_index (length rs)) (map (zip cs) rs)\<rparr>"

definition scenario_store :: store where
  "scenario_store =
     (\<lambda>r. frame [] ''float64'' [])
       (0 := frame [''ID'', ''val''] ''float64'' [[Num 1, Num 1], [Num 2, Num 2], [Num 3, Num 3]],
        1 := frame [''id'', ''val''] ''float64'' [[Num 1, Num 1], [Num 2, Num 2.1], [Num 4, Num 4]])"

definition scenario :: "error + (store \<times> comparison)" where
  "scenario =
     init scenario_store (DataFrameRef 0) (DataFrameRef 1) (JStr ''id'') False 0.05 0 ''df1'' ''df2''"

definition dupes_store :: store where
  "dupes_store =
     (\<lambda>r. frame [] ''int64'' [])
       (0 := frame [''a'', ''b''] ''int64'' [[Num 1, Num 2], [Num 1, Num 2]],
        1 := frame [''a'', ''b''] ''int64'' [[Num 1, Num 2], [Num 1, Num 2]])"

definition scenario_result :: "store \<times> comparison" where
  "scenario_result = projr scenario"

definition scenario_wide :: "error + (store \<times> comparison)" where
  "scenario_wide =
     init scenario_store (DataFrameRef 0) (DataFrameRef 1) (JStr ''id'') False 0.2 0 ''df1'' ''df2''"

definition scenario_wide_result :: "store \<times> comparison" where
  "scenario_wide_result = projr scenario_wide"

text \<open>
  A frame whose three rows all carry the index label 0 (as after \<open>pd.concat\<close> of one-row
  frames), and whose key column \<open>k\<close> has a duplicate value.
\<close>

definition labels_frame :: dataframe where
  "labels_frame =
     \<lparr>columns = [''k'', ''v''], dtypes = [(''k'', ''int64''), (''v'', ''int64'')],
      rows = [(Num 0, [(''k'', Num 1), (''v'', Num 5)]),
              (Num 0, [(''k'', Num 2), (''v'', Num 0)]),
              (Num 0, [(''k'', Num 1), (''v'', Num 3)])]\<rparr>"

definition labels_store :: store where
  "labels_store = (\<lambda>r. frame [] ''int64'' []) (0 := labels_frame, 1 := labels_frame)"

definition labels_scenario :: "error + (store \<times> comparison)" where
  "labels_scenario =
     init labels_store (DataFrameRef 0) (DataFrameRef 1) (JStr ''k'') False 0 0 ''df1'' ''df2''"

definition same_object_scenario :: "error + (store \<times> comparison)" where
  "same_object_scenario =
     init dupes_store (DataFrameRef 0) (DataFrameRef 0) (JStr ''a'') False 0 0 ''df1'' ''df2''"

definition copies_scenario :: "error + (store \<times> comparison)" where
  "copies_scenario =
     init dupes_store (DataFrameRef 0) (DataFrameRef 1) (JStr ''a'') False 0 0 ''df1'' ''df2''"

text \<open>
  Three comparisons for \<open>subset()\<close>: the second frame lacks a row of the first; it has a
  column that the first has not; it differs from the first in one value.
\<close>

definition subset_store :: store where
  "subset_store =
     (\<lambda>r. frame [] ''int64'' [])
       (0 := frame [''id'', ''val''] ''int64'' [[Num 1, Num 1], [Num 2, Num 2], [Num 3, Num 3]],
        1 := frame [''id'', ''val''] ''int64'' [[Num 1, Num 1], [Num 2, Num 2]],
        2 := frame [''id'', ''val'', ''extra''] ''int64'' [[Num 1, Num 1, Num 0], [Num 2, Num 2, Num 0]],
        3 := frame [''id'', ''val''] ''int64'' [[Num 1, Num 1], [Num 2, Num 5]])"

definition subset_of_rows :: "error + (store \<times> comparison)" where
  "subset_of_rows =
     init subset_store (DataFrameRef 0) (DataFrameRef 1) (JStr ''id'') False 0 0 ''df1'' ''df2''"

definition subset_extra_column :: "error + (store \<times> comparison)" where
  "subset_extra_column =
     init subset_store (DataFrameRef 0) (DataFrameRef 2) (JStr ''id'') False 0 0 ''df1'' ''df2''"

definition subset_other_value :: "error + (store \<times> comparison)" where
  "subset_other_value =
     init subset_store (DataFrameRef 0) (DataFrameRef 3) (JStr ''id'') False 0 0 ''df1'' ''df2''"

section \<open>Properties\<close>

subsection \<open>Errors and cells\<close>

lemma bind_err_Inl [simp]: "bind_err (Inl e) f = Inl e"
  by (simp add: bind_err_def)

lemma bind_err_Inr [simp]: "bind_err (Inr x) f = f x"
  by (simp add: bind_err_def)

lemma bind_err_eq_Inr: "bind_err m f = Inr y \<longleftrightarrow> (\<exists>x. m = Inr x \<and> f x = Inr y)"
  by (cases m) simp_all

lemma bind_err_eq_Inl: "bind_err m f = Inl e \<longleftrightarrow> (m = Inl e \<or> (\<exists>x. m = Inr x \<and> f x = Inl e))"
  by (cases m) simp_all

lemma set_column_columns_equal:
  "set_column d (c @ ''_match'') ''bool''
     (columns_equal (map (\<lambda>(l, r). cell_of r (c @ ''_df1'')) (rows d))
                    (map (\<lambda>(l, r). cell_of r (c @ ''_df2'')) (rows d)) rtol atol)
   = add_match_frame rtol atol c d"
proof -
  have "map (\<lambda>((l, r), v). (l, AList.update (c @ ''_match'') v r))
          (zip xs (columns_equal (map (\<lambda>(l, r). cell_of r (c @ ''_df1'')) xs)
                    (map (\<lambda>(l, r). cell_of r (c @ ''_df2'')) xs) rtol atol))
        = map (\<lambda>(l, r). (l, add_match rtol atol c r)) xs" for xs :: "(cell \<times> row) list"
    by (induction xs) (auto simp: columns_equal_def add_match_def)
  then show ?thesis
    by (simp add: set_column_def add_match_frame_def)
qed

lemma get_column_Inr: "get_column d n = Inr cs \<longleftrightarrow> n \<in> set (columns d) \<and> cs = map (\<lambda>(l, r). cell_of r n) (rows d)"
  by (auto simp: get_column_def)

lemma cell_of_update: "cell_of (AList.update k v r) n = (if n = k then v else cell_of r n)"
  by (simp add: cell_of_def update_conv')

lemma cell_of_delete: "cell_of (AList.delete k r) n = (if n = k then Null else cell_of r n)"
  by (simp add: cell_of_def delete_conv')

lemma cell_of_add_match_other:
  "n \<noteq> c @ ''_match'' \<Longrightarrow> cell_of (add_match rtol atol c r) n = cell_of r n"
  by (simp add: add_match_def cell_of_update)

lemma cell_of_add_match_same:
  "cell_of (add_match rtol atol c r) (c @ ''_match'')
     = Bool (value_equal rtol atol (cell_of r (c @ ''_df1'')) (cell_of r (c @ ''_df2'')))"
  by (simp add: add_match_def cell_of_update)

lemma compare_column_key:
  assumes "col \<in> set (join_columns self)"
  shows "compare_column st n self col =
     Inr (self\<lparr>column_stats := column_stats self @
            [\<lparr>column = col, match_column = [], match_cnt = n, unequal_cnt = 0,
              dtype1 = dtype_of (st (df1 self)) col, dtype2 = dtype_of (st (df2 self)) col,
              all_match = (dtype_of (st (df1 self)) col = dtype_of (st (df2 self)) col),
              max_diff = Num 0, null_diff = 0\<rparr>]\<rparr>)"
  using assms by (simp add: compare_column_def)

lemma compare_column_other:
  assumes "col \<notin> set (join_columns self)" and "compare_column st n self col = Inr self'"
  obtains ir s where "intersect_rows self = Some ir"
    and "col @ ''_df1'' \<in> set (columns ir)" and "col @ ''_df2'' \<in> set (columns ir)"
    and "self' = self\<lparr>intersect_rows := Some (add_match_frame (rel_tol self) (abs_tol self) col ir),
                      column_stats := column_stats self @ [s]\<rparr>"
    and "column s = col" and "match_column s = col @ ''_match''"
    and "all_match s \<longleftrightarrow> dtype1 s = dtype2 s \<and> unequal_cnt s = 0"
proof -
  from assms obtain ir where ir: "intersect_rows self = Some ir"
    by (cases "intersect_rows self") (auto simp: compare_column_def)
  from assms ir have c1: "col @ ''_df1'' \<in> set (columns ir)" and c2: "col @ ''_df2'' \<in> set (columns ir)"
    by (auto simp: compare_column_def Let_def bind_err_eq_Inr get_column_Inr)
  from assms ir c1 c2 show thesis
    apply (simp add: compare_column_def Let_def bind_err_eq_Inr get_column_Inr set_column_columns_equal)
    apply (elim exE conjE)
    apply (rule that[OF ir c1 c2])
    apply auto
    done
qed

lemma suffix_df1_neq_match [simp]: "a @ ''_df1'' \<noteq> b @ ''_match''"
proof
  assume "a @ ''_df1'' = b @ ''_match''"
  then have "last (a @ ''_df1'') = last (b @ ''_match'')" by simp
  then show False by simp
qed

lemma suffix_df2_neq_match [simp]: "a @ ''_df2'' \<noteq> b @ ''_match''"
proof
  assume "a @ ''_df2'' = b @ ''_match''"
  then have "last (a @ ''_df2'') = last (b @ ''_match'')" by simp
  then show False by simp
qed

lemma columns_add_match_frame:
  "set (columns (add_match_frame rtol atol c d)) = insert (c @ ''_match'') (set (columns d))"
  by (auto simp: add_match_frame_def)

lemma columns_add_matches:
  "set (columns (add_matches rtol atol cs d)) = set (columns d) \<union> (\<lambda>c. c @ ''_match'') ` set cs"
  unfolding add_matches_def
  by (induction cs arbitrary: d) (auto simp: columns_add_match_frame)

lemma add_matches_Nil [simp]: "add_matches rtol atol [] d = d"
  by (simp add: add_matches_def)

lemma add_matches_Cons [simp]:
  "add_matches rtol atol (c # cs) d = add_matches rtol atol cs (add_match_frame rtol atol c d)"
  by (simp add: add_matches_def)

lemma compare_column_fields:
  assumes "compare_column st n self col = Inr self'"
  shows "join_columns self' = join_columns self \<and> on_index self' = on_index self \<and>
    any_dupes self' = any_dupes self \<and> df1 self' = df1 self \<and> df2 self' = df2 self \<and>
    df1_name self' = df1_name self \<and> df2_name self' = df2_name self \<and>
    abs_tol self' = abs_tol self \<and> rel_tol self' = rel_tol self \<and>
    df1_unq_rows self' = df1_unq_rows self \<and> df2_unq_rows self' = df2_unq_rows self"
proof (cases "col \<in> set (join_columns self)")
  case True
  with assms show ?thesis by (auto simp: compare_column_key)
next
  case False
  obtain ir s where "self' = self\<lparr>intersect_rows := Some (add_match_frame (rel_tol self) (abs_tol self) col ir),
                      column_stats := column_stats self @ [s]\<rparr>"
    using compare_column_other[OF False assms] by blast
  then show ?thesis by simp
qed

lemma compare_column_key_ex:
  assumes "c \<in> set (join_columns self)" and "compare_column st n self c = Inr mid"
  shows "\<exists>s. mid = self\<lparr>column_stats := column_stats self @ [s]\<rparr> \<and> column s = c \<and> stat_ok s
           \<and> match_column s = []"
proof -
  let ?s = "\<lparr>column = c, match_column = [], match_cnt = n, unequal_cnt = 0,
              dtype1 = dtype_of (st (df1 self)) c, dtype2 = dtype_of (st (df2 self)) c,
              all_match = (dtype_of (st (df1 self)) c = dtype_of (st (df2 self)) c),
              max_diff = Num 0, null_diff = 0\<rparr>"
  have "mid = self\<lparr>column_stats := column_stats self @ [?s]\<rparr>"
    using assms by (simp add: compare_column_key)
  moreover have "column ?s = c" "stat_ok ?s" "match_column ?s = []"
    by (simp_all add: stat_ok_def)
  ultimately show ?thesis by blast
qed

lemma loop_effect:
  assumes "intersect_compare_loop st n cs self = Inr self'"
  shows "\<exists>stats. self' = self\<lparr>intersect_rows :=
              map_option (add_matches (rel_tol self) (abs_tol self)
                            (filter (\<lambda>c. c \<notin> set (join_columns self)) cs)) (intersect_rows self),
            column_stats := column_stats self @ stats\<rparr>
          \<and> map column stats = cs \<and> list_all stat_ok stats
          \<and> (\<forall>s \<in> set stats. match_column s = (if column s \<in> set (join_columns self) then [] else column s @ ''_match''))"
  using assms
proof (induction cs arbitrary: self)
  case Nil
  then show ?case by (cases "intersect_rows self") (auto simp: option.map_id)
next
  case (Cons c cs)
  from Cons.prems obtain mid where mid: "compare_column st n self c = Inr mid"
    and rest: "intersect_compare_loop st n cs mid = Inr self'"
    by (auto simp: bind_err_eq_Inr)
  from Cons.IH[OF rest] obtain stats where
    s': "self' = mid\<lparr>intersect_rows :=
              map_option (add_matches (rel_tol mid) (abs_tol mid)
                            (filter (\<lambda>c. c \<notin> set (join_columns mid)) cs)) (intersect_rows mid),
            column_stats := column_stats mid @ stats\<rparr>"
    and st: "map column stats = cs" "list_all stat_ok stats"
      "\<forall>s \<in> set stats. match_column s = (if column s \<in> set (join_columns mid) then [] else column s @ ''_match'')"
    by blast
  show ?case
  proof (cases "c \<in> set (join_columns self)")
    case True
    from compare_column_key_ex[OF True mid] obtain s
      where m: "mid = self\<lparr>column_stats := column_stats self @ [s]\<rparr>"
      and sp: "column s = c" "stat_ok s" "match_column s = []"
      by blast
    have e: "self' = self\<lparr>intersect_rows :=
              map_option (add_matches (rel_tol self) (abs_tol self)
                            (filter (\<lambda>c. c \<notin> set (join_columns self)) (c # cs))) (intersect_rows self),
            column_stats := column_stats self @ (s # stats)\<rparr>"
      unfolding s' m using True by simp
    have j: "join_columns mid = join_columns self" by (simp add: m)
    show ?thesis
      apply (rule exI[of _ "s # stats"])
      apply (intro conjI)
         apply (rule e)
      using st sp True j by simp_all
  next
    case False
    from compare_column_other[OF False mid] obtain ir s where
      ir: "intersect_rows self = Some ir"
      and m: "mid = self\<lparr>intersect_rows := Some (add_match_frame (rel_tol self) (abs_tol self) c ir),
                      column_stats := column_stats self @ [s]\<rparr>"
      and sp: "column s = c" "match_column s = c @ ''_match''"
        "all_match s \<longleftrightarrow> dtype1 s = dtype2 s \<and> unequal_cnt s = 0"
      by blast
    have e: "self' = self\<lparr>intersect_rows :=
              map_option (add_matches (rel_tol self) (abs_tol self)
                            (filter (\<lambda>c. c \<notin> set (join_columns self)) (c # cs))) (intersect_rows self),
            column_stats := column_stats self @ (s # stats)\<rparr>"
      unfolding s' m using False ir by simp
    have j: "join_columns mid = join_columns self" by (simp add: m)
    have ok: "stat_ok s" using sp(3) by (simp add: stat_ok_def)
    show ?thesis
      apply (rule exI[of _ "s # stats"])
      apply (intro conjI)
         apply (rule e)
      using st sp(1,2) ok False j by simp_all
  qed
qed

lemma loop_sources:
  assumes "intersect_compare_loop st n cs self = Inr self'" and "intersect_rows self = Some ir"
  shows "\<forall>c \<in> set cs. c \<notin> set (join_columns self) \<longrightarrow>
           c @ ''_df1'' \<in> set (columns ir) \<and> c @ ''_df2'' \<in> set (columns ir)"
  using assms
proof (induction cs arbitrary: self ir)
  case Nil
  then show ?case by simp
next
  case (Cons c cs)
  from Cons.prems obtain mid where mid: "compare_column st n self c = Inr mid"
    and rest: "intersect_compare_loop st n cs mid = Inr self'"
    by (auto simp: bind_err_eq_Inr)
  have j: "join_columns mid = join_columns self"
    using compare_column_fields[OF mid] by simp
  show ?case
  proof (cases "c \<in> set (join_columns self)")
    case True
    from compare_column_key_ex[OF True mid] obtain s
      where m: "mid = self\<lparr>column_stats := column_stats self @ [s]\<rparr>" by blast
    have "intersect_rows mid = Some ir" using Cons.prems(2) by (simp add: m)
    from Cons.IH[OF rest this] True show ?thesis by (simp add: j)
  next
    case False
    from compare_column_other[OF False mid] obtain ir' s where
      ir: "intersect_rows self = Some ir'"
      and c12: "c @ ''_df1'' \<in> set (columns ir')" "c @ ''_df2'' \<in> set (columns ir')"
      and m: "mid = self\<lparr>intersect_rows := Some (add_match_frame (rel_tol self) (abs_tol self) c ir'),
                      column_stats := column_stats self @ [s]\<rparr>"
      by blast
    have eq: "ir' = ir" using ir Cons.prems(2) by simp
    have "intersect_rows mid = Some (add_match_frame (rel_tol self) (abs_tol self) c ir)"
      by (simp add: m eq)
    from Cons.IH[OF rest this] have
      "\<forall>c' \<in> set cs. c' \<notin> set (join_columns self) \<longrightarrow>
           c' @ ''_df1'' \<in> set (columns ir) \<and> c' @ ''_df2'' \<in> set (columns ir)"
      by (simp add: j columns_add_match_frame)
    with c12 eq show ?thesis by simp
  qed
qed

lemma dataframe_merge_Inr:
  assumes "dataframe_merge st self = Inr (st', self')"
  shows "\<exists>u1 u2 ir. self' = self\<lparr>df1_unq_rows := Some u1, df2_unq_rows := Some u2,
                                  intersect_rows := Some ir\<rparr>"
  using assms unfolding dataframe_merge_def
  by (auto simp: bind_err_eq_Inr split: prod.splits)

lemma rename_lower: "rename_columns d (map lower (columns d)) = Inr (lowered d)"
  by (simp add: rename_columns_def lowered_def)

lemma card_less_length_iff: "card (set xs) < length xs \<longleftrightarrow> \<not> distinct xs"
proof
  assume "card (set xs) < length xs"
  then show "\<not> distinct xs" using distinct_card[of xs] by auto
next
  assume "\<not> distinct xs"
  then have "card (set xs) \<noteq> length xs" using card_distinct[of xs] by blast
  then show "card (set xs) < length xs" using card_length[of xs] by linarith
qed

lemma card_image_less_length_iff: "card (f ` set xs) < length xs \<longleftrightarrow> \<not> distinct (map f xs)"
  using card_less_length_iff[of "map f xs"] by simp

lemma validate_dataframe_Inr:
  assumes "validate_dataframe st jc oi dupes idx a = Inr (st', dupes', r)"
  shows "a = DataFrameRef r \<and> st' = st(r := lowered (st r))
         \<and> set jc \<subseteq> set (map lower (columns (st r))) \<and> distinct (map lower (columns (st r)))
         \<and> (dupes \<longrightarrow> dupes')"
proof (cases a)
  case OtherObject
  with assms show ?thesis by (simp add: validate_dataframe_def)
next
  case (DataFrameRef x)
  have c: "columns (lowered (st x)) = map lower (columns (st x))"
    by (simp add: lowered_def)
  from assms show ?thesis
    unfolding validate_dataframe_def DataFrameRef
    by (auto simp: rename_lower Let_def c bind_err_eq_Inr card_image_less_length_iff
        split: if_splits)
qed

lemma init_attributes_Inr:
  assumes "init_attributes st a1 a2 jc oi atol rtol n1 n2 = Inr (st', self)"
  shows "df1_unq_rows self = None \<and> df2_unq_rows self = None \<and> intersect_rows self = None
    \<and> column_stats self = [] \<and> abs_tol self = atol \<and> rel_tol self = rtol
    \<and> a1 = DataFrameRef (df1 self) \<and> a2 = DataFrameRef (df2 self)
    \<and> df1_name self = n1 \<and> df2_name self = n2 \<and> on_index self = oi"
  using assms unfolding init_attributes_def
  by (auto simp: bind_err_eq_Inr split: prod.splits if_splits join_arg.splits
      dest!: validate_dataframe_Inr)

lemma intersect_compare_Inr:
  assumes "intersect_compare st self = Inr self'" and "intersect_rows self = Some ir"
  shows "\<exists>stats. self' = self\<lparr>intersect_rows :=
              Some (add_matches (rel_tol self) (abs_tol self) (compared_columns st self) ir),
            column_stats := column_stats self @ stats\<rparr>
          \<and> map column stats = intersect_columns st self \<and> list_all stat_ok stats
          \<and> (\<forall>s \<in> set stats. match_column s = (if column s \<in> set (join_columns self) then [] else column s @ ''_match''))
          \<and> (\<forall>c \<in> set (compared_columns st self).
                 c @ ''_df1'' \<in> set (columns ir) \<and> c @ ''_df2'' \<in> set (columns ir))"
proof -
  from assms have l: "intersect_compare_loop st (int (len ir)) (intersect_columns st self) self = Inr self'"
    by (simp add: intersect_compare_def)
  from loop_effect[OF l] loop_sources[OF l assms(2)] assms(2)
  show ?thesis by (simp add: compared_columns_def)
qed

lemma compare_Inr:
  assumes "compare st self = Inr (st', c)" and "column_stats self = []"
  shows "\<exists>u1 u2 ir stats.
     dataframe_merge st self = Inr (st', self\<lparr>df1_unq_rows := Some u1, df2_unq_rows := Some u2,
                                  intersect_rows := Some ir\<rparr>)
     \<and> c = self\<lparr>df1_unq_rows := Some u1, df2_unq_rows := Some u2,
              intersect_rows := Some (add_matches (rel_tol self) (abs_tol self) (compared_columns st' self) ir),
              column_stats := stats\<rparr>
     \<and> map column stats = intersect_columns st' self \<and> list_all stat_ok stats
     \<and> (\<forall>s \<in> set stats. match_column s = (if column s \<in> set (join_columns self) then [] else column s @ ''_match''))
     \<and> (\<forall>x \<in> set (compared_columns st' self).
            x @ ''_df1'' \<in> set (columns ir) \<and> x @ ''_df2'' \<in> set (columns ir))"
proof -
  from assms(1) obtain self1 where m: "dataframe_merge st self = Inr (st', self1)"
    and ic: "intersect_compare st' self1 = Inr c"
    by (auto simp: compare_def bind_err_eq_Inr)
  from dataframe_merge_Inr[OF m] obtain u1 u2 ir where
    s1: "self1 = self\<lparr>df1_unq_rows := Some u1, df2_unq_rows := Some u2, intersect_rows := Some ir\<rparr>"
    by blast
  have ir: "intersect_rows self1 = Some ir" by (simp add: s1)
  have eqs: "compared_columns st' self1 = compared_columns st' self"
    "intersect_columns st' self1 = intersect_columns st' self"
    "join_columns self1 = join_columns self" "rel_tol self1 = rel_tol self"
    "abs_tol self1 = abs_tol self" "column_stats self1 = []"
    by (simp_all add: s1 compared_columns_def intersect_columns_def assms(2))
  from intersect_compare_Inr[OF ic ir] obtain stats where
    c: "c = self1\<lparr>intersect_rows :=
              Some (add_matches (rel_tol self) (abs_tol self) (compared_columns st' self) ir),
            column_stats := stats\<rparr>"
    and rest: "map column stats = intersect_columns st' self" "list_all stat_ok stats"
      "\<forall>s \<in> set stats. match_column s = (if column s \<in> set (join_columns self) then [] else column s @ ''_match'')"
      "\<forall>c \<in> set (compared_columns st' self).
                 c @ ''_df1'' \<in> set (columns ir) \<and> c @ ''_df2'' \<in> set (columns ir)"
    unfolding eqs by auto
  have c': "c = self\<lparr>df1_unq_rows := Some u1, df2_unq_rows := Some u2,
              intersect_rows := Some (add_matches (rel_tol self) (abs_tol self) (compared_columns st' self) ir),
              column_stats := stats\<rparr>"
    unfolding c s1 by simp
  from m s1 c' rest show ?thesis by blast
qed

lemma rows_add_match_frame:
  "rows (add_match_frame rtol atol c d) = map (\<lambda>(l, r). (l, add_match rtol atol c r)) (rows d)"
  by (simp add: add_match_frame_def)

lemma rows_add_matches:
  "rows (add_matches rtol atol cs d) = map (\<lambda>(l, r). (l, fold (add_match rtol atol) cs r)) (rows d)"
proof (induction cs arbitrary: d)
  case Nil
  then show ?case by simp
next
  case (Cons c cs)
  show ?case
    by (simp add: Cons.IH rows_add_match_frame case_prod_unfold)
qed

lemma len_add_matches: "len (add_matches rtol atol cs d) = len d"
  by (simp add: len_def rows_add_matches)

lemma cell_of_fold_other:
  "n \<notin> (\<lambda>c. c @ ''_match'') ` set cs \<Longrightarrow> cell_of (fold (add_match rtol atol) cs r) n = cell_of r n"
  by (induction cs arbitrary: r) (auto simp: cell_of_add_match_other)

lemma cell_of_fold_match:
  "x \<in> set cs \<Longrightarrow>
   cell_of (fold (add_match rtol atol) cs r) (x @ ''_match'')
     = Bool (value_equal rtol atol (cell_of r (x @ ''_df1'')) (cell_of r (x @ ''_df2'')))"
proof (induction cs arbitrary: r)
  case Nil
  then show ?case by simp
next
  case (Cons c cs)
  show ?case
  proof (cases "x \<in> set cs")
    case True
    from Cons.IH[OF True, of "add_match rtol atol c r"] show ?thesis
      by (simp add: cell_of_add_match_other)
  next
    case False
    with Cons.prems have xc: "x = c" by simp
    have "x @ ''_match'' \<notin> (\<lambda>c. c @ ''_match'') ` set cs" using False by auto
    from cell_of_fold_other[OF this] show ?thesis
      by (simp add: xc cell_of_add_match_same)
  qed
qed

lemma final_row_cells:
  assumes "(l, r) \<in> set (rows (add_matches rtol atol cs d))" and "x \<in> set cs"
  shows "cell_of r (x @ ''_match'')
     = Bool (value_equal rtol atol (cell_of r (x @ ''_df1'')) (cell_of r (x @ ''_df2'')))"
proof -
  from assms(1) obtain r0 where r: "r = fold (add_match rtol atol) cs r0"
    by (auto simp: rows_add_matches)
  have "cell_of r (x @ ''_df1'') = cell_of r0 (x @ ''_df1'')"
    "cell_of r (x @ ''_df2'') = cell_of r0 (x @ ''_df2'')"
    unfolding r by (rule cell_of_fold_other; auto)+
  then show ?thesis unfolding r by (simp add: cell_of_fold_match[OF assms(2)])
qed

lemma select_columns_Inr:
  assumes "set ns \<subseteq> set (columns d)"
  shows "select_columns d ns =
     Inr (d\<lparr>columns := ns, dtypes := map (\<lambda>n. (n, dtype_of d n)) ns,
            rows := map (\<lambda>(l, r). (l, map (\<lambda>n. (n, cell_of r n)) ns)) (rows d)\<rparr>)"
proof -
  have "filter (\<lambda>n. n \<notin> set (columns d)) ns = []" using assms by (auto simp: filter_empty_conv)
  then show ?thesis by (simp add: select_columns_def)
qed

lemma cell_of_selected:
  "n \<in> set ns \<Longrightarrow> cell_of (map (\<lambda>n. (n, cell_of r n)) ns) n = cell_of r n"
  by (induction ns) (auto simp: cell_of_def)

lemma length_filter_eq_iff: "length (filter P xs) = length xs \<longleftrightarrow> (\<forall>x \<in> set xs. P x)"
proof (induction xs)
  case Nil
  then show ?case by simp
next
  case (Cons x xs)
  have "length (filter P xs) \<noteq> Suc (length xs)"
    using length_filter_le[of P xs] by linarith
  with Cons show ?case by simp
qed

lemma count_matching_rows_add_matches:
  assumes "intersect_rows c = Some (add_matches rtol atol (compared_columns st c) ir)"
  shows "count_matching_rows st c =
     Inr (int (length (filter (row_matches (compared_columns st c))
                         (rows (add_matches rtol atol (compared_columns st c) ir)))))"
proof -
  let ?cs = "compared_columns st c"
  let ?f = "add_matches rtol atol ?cs ir"
  have mc: "match_columns_of st c = map (\<lambda>c. c @ ''_match'') ?cs"
    by (simp add: match_columns_of_def compared_columns_def)
  have sub: "set (match_columns_of st c) \<subseteq> set (columns ?f)"
    by (auto simp: mc columns_add_matches)
  have "(\<forall>n \<in> set (match_columns_of st c). truthy (cell_of (map (\<lambda>n. (n, cell_of r n)) (match_columns_of st c)) n))
        = row_matches ?cs (l, r)" if "(l, r) \<in> set (rows ?f)" for l r
  proof -
    have a: "truthy (cell_of r (x @ ''_match'')) = (cell_of r (x @ ''_match'') = Bool True)"
      if "x \<in> set ?cs" for x
      using final_row_cells[OF \<open>(l, r) \<in> set (rows ?f)\<close> that] by (simp add: truthy_def)
    have "(\<forall>n \<in> set (match_columns_of st c). truthy (cell_of (map (\<lambda>n. (n, cell_of r n)) (match_columns_of st c)) n))
          = (\<forall>n \<in> set (match_columns_of st c). truthy (cell_of r n))"
      by (simp add: cell_of_selected)
    also have "\<dots> = (\<forall>x \<in> set ?cs. truthy (cell_of r (x @ ''_match'')))"
      unfolding mc by simp
    also have "\<dots> = row_matches ?cs (l, r)"
      using a by (simp add: row_matches_def)
    finally show ?thesis .
  qed
  then have "filter (\<lambda>(l, r). \<forall>n \<in> set (match_columns_of st c).
                 truthy (cell_of (map (\<lambda>n. (n, cell_of r n)) (match_columns_of st c)) n)) (rows ?f)
             = filter (row_matches ?cs) (rows ?f)"
    by (intro filter_cong) auto
  then show ?thesis
    by (simp add: count_matching_rows_def assms select_columns_Inr[OF sub] filter_map o_def
        case_prod_unfold)
qed

lemma completed:
  assumes "init st a1 a2 jc oi atol rtol n1 n2 = Inr (st', c)"
  obtains u1 u2 ir where
    "df1_unq_rows c = Some u1" "df2_unq_rows c = Some u2"
    "intersect_rows c = Some (add_matches rtol atol (compared_columns st' c) ir)"
    "map column (column_stats c) = intersect_columns st' c"
    "list_all stat_ok (column_stats c)"
    "\<forall>s \<in> set (column_stats c).
        match_column s = (if column s \<in> set (join_columns c) then [] else column s @ ''_match'')"
    "\<forall>x \<in> set (compared_columns st' c).
        x @ ''_df1'' \<in> set (columns ir) \<and> x @ ''_df2'' \<in> set (columns ir)"
    "rel_tol c = rtol" "abs_tol c = atol" "on_index c = oi"
    "a1 = DataFrameRef (df1 c)" "a2 = DataFrameRef (df2 c)"
proof -
  from assms obtain st0 self where ia: "init_attributes st a1 a2 jc oi atol rtol n1 n2 = Inr (st0, self)"
    and cmp: "compare st0 self = Inr (st', c)"
    by (auto simp: init_def bind_err_eq_Inr)
  note f = init_attributes_Inr[OF ia]
  from f have cs: "column_stats self = []" by simp
  from compare_Inr[OF cmp cs] obtain u1 u2 ir stats where
    c: "c = self\<lparr>df1_unq_rows := Some u1, df2_unq_rows := Some u2,
              intersect_rows := Some (add_matches (rel_tol self) (abs_tol self) (compared_columns st' self) ir),
              column_stats := stats\<rparr>"
    and rest: "map column stats = intersect_columns st' self" "list_all stat_ok stats"
      "\<forall>s \<in> set stats. match_column s = (if column s \<in> set (join_columns self) then [] else column s @ ''_match'')"
      "\<forall>x \<in> set (compared_columns st' self).
            x @ ''_df1'' \<in> set (columns ir) \<and> x @ ''_df2'' \<in> set (columns ir)"
    by blast
  have eqs: "compared_columns st' c = compared_columns st' self"
    "intersect_columns st' c = intersect_columns st' self"
    "join_columns c = join_columns self" "column_stats c = stats"
    "df1 c = df1 self" "df2 c = df2 self"
    by (simp_all add: c compared_columns_def intersect_columns_def)
  show thesis
  proof (rule that[of u1 u2 ir])
    show "df1_unq_rows c = Some u1" "df2_unq_rows c = Some u2" by (simp_all add: c)
    show "intersect_rows c = Some (add_matches rtol atol (compared_columns st' c) ir)"
      unfolding eqs using f by (simp add: c)
    show "rel_tol c = rtol" "abs_tol c = atol" "on_index c = oi"
      using f by (simp_all add: c)
    show "a1 = DataFrameRef (df1 c)" "a2 = DataFrameRef (df2 c)"
      unfolding eqs using f by simp_all
  qed (use rest in \<open>simp_all add: eqs\<close>)
qed

lemma intersect_rows_match_completed:
  assumes "intersect_rows c = Some (add_matches rtol atol (compared_columns st c) ir)"
  shows "intersect_rows_match st c =
     Inr (\<forall>x \<in> set (rows (add_matches rtol atol (compared_columns st c) ir)).
            row_matches (compared_columns st c) x)"
  by (simp add: intersect_rows_match_def assms count_matching_rows_add_matches[OF assms]
      len_def length_filter_eq_iff)

subsection \<open>The store and the columns of the results\<close>

lemma le_fold_max_gen: "x \<in> set xs \<or> x \<le> m \<Longrightarrow> (x::nat) \<le> fold max xs m"
  by (induction xs arbitrary: m) (auto simp: max_def)

lemma le_fold_max: "x \<in> set xs \<Longrightarrow> (x::nat) \<le> fold max xs m"
  by (simp add: le_fold_max_gen)

lemma temp_column_name_fresh:
  "temp_column_name a b \<notin> set (columns a) \<union> set (columns b)"
proof
  assume "temp_column_name a b \<in> set (columns a) \<union> set (columns b)"
  then have "length (temp_column_name a b) \<in> set (map length (columns a @ columns b))"
    by auto
  from le_fold_max[OF this, of 0] show False
    by (simp add: temp_column_name_def)
qed

lemma temp_column_name_not_merge: "temp_column_name a b \<noteq> ''_merge''"
  by (simp add: temp_column_name_def)

lemma columns_set_column:
  "columns (set_column d n t vs) = (if n \<in> set (columns d) then columns d else columns d @ [n])"
  by (simp add: set_column_def)

lemma set_column_series_Inr:
  "set_column_series d n t s = Inr d' \<Longrightarrow>
     columns d' = (if n \<in> set (columns d) then columns d else columns d @ [n])
     \<and> length (rows d') \<le> length (rows d)"
  by (auto simp: set_column_series_def set_column_def split: if_splits)

lemma drop_column_Inr:
  "drop_column d n = Inr d' \<longleftrightarrow>
     n \<in> set (columns d) \<and>
     d' = d\<lparr>columns := filter (\<lambda>c. c \<noteq> n) (columns d), dtypes := AList.delete n (dtypes d),
            rows := map (\<lambda>(l, r). (l, AList.delete n r)) (rows d)\<rparr>"
  by (auto simp: drop_column_def)

lemma drop_column_twice: "drop_column d n = Inr d' \<Longrightarrow> drop_column d' n = Inl (KeyError n)"
  by (auto simp: drop_column_def split: if_splits)

lemma lower_char_idem [simp]: "lower_char (lower_char c) = lower_char c"
  by (auto simp: lower_char_def Let_def)

lemma lower_idem [simp]: "lower (lower s) = lower s"
  by (simp add: lower_def)

lemma map_lower_idem [simp]: "map lower (map lower cs) = map lower cs"
  by simp

lemma columns_lowered [simp]: "columns (lowered d) = map lower (columns d)"
  by (simp add: lowered_def)

lemma drop_temp_columns_store:
  assumes "drop_temp_columns st self oj ix oc = Inr (st', oj')"
  shows "df1 self \<noteq> df2 self
    \<and> columns (st' (df1 self)) = filter (\<lambda>c. c \<noteq> oc) (filter (\<lambda>c. c \<notin> set (temp_list ix)) (columns (st (df1 self))))
    \<and> columns (st' (df2 self)) = filter (\<lambda>c. c \<noteq> oc) (filter (\<lambda>c. c \<notin> set (temp_list ix)) (columns (st (df2 self))))
    \<and> (\<forall>r. r \<noteq> df1 self \<and> r \<noteq> df2 self \<longrightarrow> st' r = st r)
    \<and> columns oj' = filter (\<lambda>c. c \<noteq> oc) (filter (\<lambda>c. c \<notin> set (temp_list ix)) (columns oj))
    \<and> length (rows oj') = length (rows oj)"
proof -
  from assms obtain st2 oj2 oj3 d1 d2 where
    first: "(case ix of None \<Rightarrow> Inr (st, oj)
        | Some ic \<Rightarrow>
            bind_err (set_index_from oj ic) (\<lambda>oj1.
            bind_err (drop_column oj1 ic) (\<lambda>oj2.
            bind_err (drop_column (st (df1 self)) ic) (\<lambda>d1.
            let st1 = st(df1 self := d1) in
            bind_err (drop_column (st1 (df2 self)) ic) (\<lambda>d2.
            Inr (st1(df2 self := d2), oj2)))))) = Inr (st2, oj2)"
    and o3: "drop_column oj2 oc = Inr oj3"
    and d1: "drop_column (st2 (df1 self)) oc = Inr d1"
    and d2: "drop_column ((st2(df1 self := d1)) (df2 self)) oc = Inr d2"
    and res: "st' = (st2(df1 self := d1))(df2 self := d2)" "oj' = oj3"
    unfolding drop_temp_columns_def by (auto simp: bind_err_eq_Inr Let_def)
  have neq: "df1 self \<noteq> df2 self"
  proof
    assume "df1 self = df2 self"
    with d2 have "drop_column d1 oc = Inr d2" by simp
    with drop_column_twice[OF d1] show False by simp
  qed
  have f: "columns (st2 (df1 self)) = filter (\<lambda>c. c \<notin> set (temp_list ix)) (columns (st (df1 self)))
      \<and> columns (st2 (df2 self)) = filter (\<lambda>c. c \<notin> set (temp_list ix)) (columns (st (df2 self)))
      \<and> (\<forall>r. r \<noteq> df1 self \<and> r \<noteq> df2 self \<longrightarrow> st2 r = st r)
      \<and> columns oj2 = filter (\<lambda>c. c \<notin> set (temp_list ix)) (columns oj)
      \<and> length (rows oj2) = length (rows oj)"
  proof (cases ix)
    case None
    with first show ?thesis by (simp add: temp_list_def)
  next
    case (Some ic)
    with first neq show ?thesis
      by (auto simp: temp_list_def bind_err_eq_Inr Let_def drop_column_Inr set_index_from_def
          split: if_splits)
  qed
  from f neq d1 d2 o3 res show ?thesis
    by (auto simp: drop_column_Inr)
qed

lemma attach_temp_columns_store:
  assumes "attach_temp_columns st self = Inr (st', ix, oc, params)" and neq: "df1 self \<noteq> df2 self"
  shows "columns (st' (df1 self)) = columns (st (df1 self)) @ temp_list ix @ [oc]
    \<and> columns (st' (df2 self)) = columns (st (df2 self)) @ temp_list ix @ [oc]
    \<and> (\<forall>r. r \<noteq> df1 self \<and> r \<noteq> df2 self \<longrightarrow> st' r = st r)
    \<and> set (temp_list ix) \<inter> (set (columns (st (df1 self))) \<union> set (columns (st (df2 self)))) = {}
    \<and> oc \<notin> set (columns (st (df1 self))) \<union> set (columns (st (df2 self))) \<union> set (temp_list ix)
    \<and> (ix = None) = (\<not> on_index self)
    \<and> params = On ((if on_index self then temp_list ix else join_columns self) @ [oc])"
proof -
  let ?r1 = "df1 self" and ?r2 = "df2 self"
  define s2 where "s2 = (if on_index self then
       (st(?r1 := set_column (st ?r1) (temp_column_name (st ?r1) (st ?r2)) ''object'' (index (st ?r1))))
         (?r2 := set_column (st ?r2) (temp_column_name (st ?r1) (st ?r2)) ''object'' (index (st ?r2)))
       else st)"
  define tj where "tj = (if on_index self then temp_list ix else join_columns self)"
  have ix: "ix = (if on_index self then Some (temp_column_name (st ?r1) (st ?r2)) else None)"
    using assms unfolding attach_temp_columns_def
    by (auto simp: bind_err_eq_Inr Let_def split: if_splits)
  from assms obtain order1 order2 d1 d2 where
    d1: "set_column_series (s2 ?r1) oc ''int64'' order1 = Inr d1"
    and d2: "set_column_series (s2 ?r2) oc ''int64'' order2 = Inr d2"
    and st': "\<forall>r. st' r = (if r = ?r2 then d2 else if r = ?r1 then d1 else st r)"
    and oc: "oc = temp_column_name (s2 ?r1) (s2 ?r2)"
    and params: "params = On (tj @ [oc])"
    unfolding attach_temp_columns_def s2_def tj_def
    by (auto simp: bind_err_eq_Inr Let_def temp_list_def split: if_splits)
  have fresh_ix: "set (temp_list ix) \<inter> (set (columns (st ?r1)) \<union> set (columns (st ?r2))) = {}"
    using temp_column_name_fresh[of "st ?r1" "st ?r2"] by (auto simp: ix temp_list_def)
  have c2: "columns (s2 ?r1) = columns (st ?r1) @ temp_list ix"
    "columns (s2 ?r2) = columns (st ?r2) @ temp_list ix"
    using fresh_ix neq by (auto simp: s2_def ix temp_list_def columns_set_column)
  have fresh_oc: "oc \<notin> set (columns (s2 ?r1)) \<union> set (columns (s2 ?r2))"
    unfolding oc by (rule temp_column_name_fresh)
  have other: "\<forall>r. r \<noteq> ?r1 \<and> r \<noteq> ?r2 \<longrightarrow> st' r = st r"
    by (simp add: st')
  from set_column_series_Inr[OF d1] set_column_series_Inr[OF d2] fresh_oc c2
  have "columns d1 = columns (st ?r1) @ temp_list ix @ [oc]"
    "columns d2 = columns (st ?r2) @ temp_list ix @ [oc]"
    by auto
  with fresh_ix fresh_oc c2 other neq params show ?thesis
    by (auto simp: st' ix tj_def)
qed

lemma filter_temps:
  assumes "set ts \<inter> set cs = {}" and "oc \<notin> set cs"
  shows "filter (\<lambda>c. c \<noteq> oc) (filter (\<lambda>c. c \<notin> set ts) (cs @ ts @ [oc])) = cs"
proof -
  have "filter (\<lambda>c. c \<notin> set ts) cs = cs" using assms(1) by (auto simp: filter_id_conv)
  moreover have "filter (\<lambda>c. c \<noteq> oc) cs = cs" using assms(2) by (auto simp: filter_id_conv)
  moreover have "filter (\<lambda>c. c \<notin> set ts) ts = []" by (simp add: filter_empty_conv)
  ultimately show ?thesis by simp
qed

lemma dataframe_merge_parts:
  assumes "dataframe_merge st self = Inr (st', self')"
  obtains (plain) oj where "\<not> any_dupes self" "st' = st"
      "merge_outer (st (df1 self)) (st (df2 self))
         (if on_index self then OnIndex else On (join_columns self)) = Inr oj"
      "intersect_rows self' = Some (filter_rows (\<lambda>r. cell_of r ''_merge'' = Str ''both'') oj)"
    | (dupes) st1 ix oc params oj oj' where "any_dupes self"
      "attach_temp_columns st self = Inr (st1, ix, oc, params)"
      "merge_outer (st1 (df1 self)) (st1 (df2 self)) params = Inr oj"
      "drop_temp_columns st1 self oj ix oc = Inr (st', oj')"
      "intersect_rows self' = Some (filter_rows (\<lambda>r. cell_of r ''_merge'' = Str ''both'') oj')"
proof (cases "any_dupes self")
  case False
  with assms show ?thesis
    unfolding dataframe_merge_def
    by (cases "on_index self") (auto simp: bind_err_eq_Inr intro!: plain)
next
  case True
  with assms show ?thesis
    unfolding dataframe_merge_def
    by (auto simp: bind_err_eq_Inr intro!: dupes)
qed

lemma dataframe_merge_store:
  assumes "dataframe_merge st self = Inr (st', self')"
  shows "columns (st' (df1 self)) = columns (st (df1 self))
    \<and> columns (st' (df2 self)) = columns (st (df2 self))
    \<and> (\<forall>r. r \<noteq> df1 self \<and> r \<noteq> df2 self \<longrightarrow> st' r = st r)"
  using assms
proof (cases rule: dataframe_merge_parts)
  case (plain oj)
  then show ?thesis by simp
next
  case (dupes st1 ix oc params oj oj')
  note d = drop_temp_columns_store[OF dupes(4)]
  then have neq: "df1 self \<noteq> df2 self" by simp
  note a = attach_temp_columns_store[OF dupes(2) neq]
  have "filter (\<lambda>c. c \<noteq> oc) (filter (\<lambda>c. c \<notin> set (temp_list ix))
          (columns (st (df1 self)) @ temp_list ix @ [oc])) = columns (st (df1 self))"
    "filter (\<lambda>c. c \<noteq> oc) (filter (\<lambda>c. c \<notin> set (temp_list ix))
          (columns (st (df2 self)) @ temp_list ix @ [oc])) = columns (st (df2 self))"
    using a by (intro filter_temps; auto)+
  with a d show ?thesis by simp
qed

lemma init_attributes_store:
  assumes "init_attributes st a1 a2 jc oi atol rtol n1 n2 = Inr (st0, self)"
  shows "columns (st0 (df1 self)) = map lower (columns (st (df1 self)))
    \<and> columns (st0 (df2 self)) = map lower (columns (st (df2 self)))
    \<and> (\<forall>r. r \<noteq> df1 self \<and> r \<noteq> df2 self \<longrightarrow> st0 r = st r)"
  using assms unfolding init_attributes_def
  by (auto simp: bind_err_eq_Inr split: prod.splits if_splits join_arg.splits
      dest!: validate_dataframe_Inr)

lemma init_parts:
  assumes "init st a1 a2 jc oi atol rtol n1 n2 = Inr (st', c)"
  obtains st0 self self1 where
    "init_attributes st a1 a2 jc oi atol rtol n1 n2 = Inr (st0, self)"
    "dataframe_merge st0 self = Inr (st', self1)"
    "intersect_compare st' self1 = Inr c"
    "df1 c = df1 self" "df2 c = df2 self" "join_columns c = join_columns self"
    "df1_unq_rows c = df1_unq_rows self1" "df2_unq_rows c = df2_unq_rows self1"
proof -
  from assms obtain st0 self self1 where ia: "init_attributes st a1 a2 jc oi atol rtol n1 n2 = Inr (st0, self)"
    and m: "dataframe_merge st0 self = Inr (st', self1)"
    and ic: "intersect_compare st' self1 = Inr c"
    by (auto simp: init_def compare_def bind_err_eq_Inr)
  from dataframe_merge_Inr[OF m] obtain u1 u2 ir where
    s1: "self1 = self\<lparr>df1_unq_rows := Some u1, df2_unq_rows := Some u2, intersect_rows := Some ir\<rparr>"
    by blast
  have ir: "intersect_rows self1 = Some ir" by (simp add: s1)
  from intersect_compare_Inr[OF ic ir] obtain stats where
    c: "c = self1\<lparr>intersect_rows :=
             Some (add_matches (rel_tol self1) (abs_tol self1) (compared_columns st' self1) ir),
           column_stats := column_stats self1 @ stats\<rparr>"
    by blast
  show thesis
    by (rule that[OF ia m ic]) (simp_all add: c s1)
qed

lemma temp_column_name_last:
  "last (temp_column_name a b) = CHR ''_'' \<or> last (temp_column_name a b) = CHR ''0''"
proof (cases "fold max (map length (columns a @ columns b)) 0")
  case 0
  then have "temp_column_name a b = ''_temp_''" by (simp add: temp_column_name_def)
  then show ?thesis by simp
next
  case (Suc k)
  then have "temp_column_name a b = (''_temp_'' @ replicate k CHR ''0'') @ [CHR ''0'']"
    by (simp add: temp_column_name_def replicate_append_same)
  then have "last (temp_column_name a b) = CHR ''0''" by (simp only: last_snoc)
  then show ?thesis by simp
qed

lemma temp_column_name_shape:
  "temp_column_name a b \<noteq> c @ ''_df1''" "temp_column_name a b \<noteq> c @ ''_df2''"
proof -
  have l: "last (c @ ''_df1'') = CHR ''1''" "last (c @ ''_df2'') = CHR ''2''" by simp_all
  show "temp_column_name a b \<noteq> c @ ''_df1''"
  proof
    assume "temp_column_name a b = c @ ''_df1''"
    then have "last (temp_column_name a b) = CHR ''1''" using l by simp
    with temp_column_name_last[of a b] show False by simp
  qed
  show "temp_column_name a b \<noteq> c @ ''_df2''"
  proof
    assume "temp_column_name a b = c @ ''_df2''"
    then have "last (temp_column_name a b) = CHR ''2''" using l by simp
    with temp_column_name_last[of a b] show False by simp
  qed
qed

lemma suffixed_cases: "suffixed keys other suf c = c \<or> suffixed keys other suf c = c @ suf"
  by (simp add: suffixed_def)

lemma merged_columns_temps:
  assumes fresh: "set T \<inter> (set L \<union> set R) = {}" and keys: "set T \<subseteq> set keys'"
    and same: "\<forall>c \<in> set L \<union> set R. (c \<in> set keys') = (c \<in> set keys)"
    and shape: "\<forall>t \<in> set T. \<forall>c. t \<noteq> c @ ''_df1'' \<and> t \<noteq> c @ ''_df2''"
    and nm: "''_merge'' \<notin> set T"
  shows "filter (\<lambda>c. c \<notin> set T) (merged_columns keys' (L @ T) (R @ T)) = merged_columns keys L R"
proof -
  have l: "map (suffixed keys' (R @ T) ''_df1'') L = map (suffixed keys R ''_df1'') L"
    using fresh same by (intro map_cong) (auto simp: suffixed_def)
  have lt: "map (suffixed keys' (R @ T) ''_df1'') T = T"
    using keys by (intro map_idI) (auto simp: suffixed_def)
  have rf: "filter (\<lambda>c. c \<notin> set keys') T = []"
    "filter (\<lambda>c. c \<notin> set keys') R = filter (\<lambda>c. c \<notin> set keys) R"
    using keys same by (auto simp: filter_empty_conv intro: filter_cong)
  have r: "map (suffixed keys' (L @ T) ''_df2'') (filter (\<lambda>c. c \<notin> set keys) R)
         = map (suffixed keys L ''_df2'') (filter (\<lambda>c. c \<notin> set keys) R)"
    using fresh same by (intro map_cong) (auto simp: suffixed_def)
  have keepl: "filter (\<lambda>c. c \<notin> set T) (map (suffixed keys R ''_df1'') L) = map (suffixed keys R ''_df1'') L"
  proof -
    have "suffixed keys R ''_df1'' c \<notin> set T" if "c \<in> set L" for c
      using suffixed_cases[of keys R "''_df1''" c] that fresh shape by auto
    then show ?thesis by (auto simp: filter_id_conv)
  qed
  have keepr: "filter (\<lambda>c. c \<notin> set T) (map (suffixed keys L ''_df2'') (filter (\<lambda>c. c \<notin> set keys) R))
      = map (suffixed keys L ''_df2'') (filter (\<lambda>c. c \<notin> set keys) R)"
  proof -
    have "suffixed keys L ''_df2'' c \<notin> set T" if "c \<in> set R" for c
      using suffixed_cases[of keys L "''_df2''" c] that fresh shape by auto
    then show ?thesis by (auto simp: filter_id_conv)
  qed
  have dropt: "filter (\<lambda>c. c \<notin> set T) T = []" by (simp add: filter_empty_conv)
  show ?thesis
    unfolding merged_columns_def
    by (simp add: l lt rf r keepl keepr dropt nm)
qed

lemma merge_outer_columns:
  assumes "merge_outer left right params = Inr oj"
  shows "columns oj = merged_columns (case params of On keys \<Rightarrow> keys | OnIndex \<Rightarrow> [])
                        (columns left) (columns right)
    \<and> distinct (columns oj)
    \<and> (\<forall>keys. params = On keys \<longrightarrow> set keys \<subseteq> set (columns left) \<inter> set (columns right))"
  using assms unfolding merge_outer_def
  by (cases params) (auto simp: Let_def filter_empty_conv split: if_splits list.splits)

lemma attach_temp_columns_shape:
  assumes "attach_temp_columns st self = Inr (st', ix, oc, params)"
  shows "\<forall>t \<in> set (temp_list ix @ [oc]).
           (\<forall>c. t \<noteq> c @ ''_df1'' \<and> t \<noteq> c @ ''_df2'') \<and> t \<noteq> ''_merge''"
proof -
  have ix: "ix = (if on_index self then Some (temp_column_name (st (df1 self)) (st (df2 self))) else None)"
    using assms unfolding attach_temp_columns_def
    by (auto simp: bind_err_eq_Inr Let_def split: if_splits)
  from assms obtain a b where oc: "oc = temp_column_name a b"
    unfolding attach_temp_columns_def
    by (auto simp: bind_err_eq_Inr Let_def split: if_splits)
  show ?thesis
    by (auto simp: ix oc temp_list_def temp_column_name_shape temp_column_name_not_merge)
qed

lemma sort_values_Inr:
  "sort_values d ns = Inr d' \<Longrightarrow> columns d' = columns d \<and> mset (rows d') = mset (rows d)"
  by (auto simp: sort_values_def split: list.splits if_splits)

lemma groupby_cumcount_Inr:
  "groupby_cumcount d ns = Inr s \<Longrightarrow> set ns \<subseteq> set (columns d)"
  by (auto simp: groupby_cumcount_def Let_def filter_empty_conv split: list.splits)

lemma attach_temp_columns_keys:
  assumes "attach_temp_columns st self = Inr (st', ix, oc, params)" and neq: "df1 self \<noteq> df2 self"
    and ni: "\<not> on_index self"
  shows "set (join_columns self) \<subseteq> set (columns (st (df1 self))) \<inter> set (columns (st (df2 self)))"
proof -
  from assms obtain sorted1 order1 sorted2 order2 where
    "sort_values (st (df1 self)) (columns (st (df1 self))) = Inr sorted1"
    "groupby_cumcount sorted1 (join_columns self) = Inr order1"
    "sort_values (st (df2 self)) (columns (st (df2 self))) = Inr sorted2"
    "groupby_cumcount sorted2 (join_columns self) = Inr order2"
    unfolding attach_temp_columns_def
    by (auto simp: bind_err_eq_Inr Let_def)
  then show ?thesis
    by (auto dest!: sort_values_Inr groupby_cumcount_Inr)
qed

lemma filter_filter_temps:
  "filter (\<lambda>c. c \<noteq> oc) (filter (\<lambda>c. c \<notin> set ts) xs) = filter (\<lambda>c. c \<notin> set (ts @ [oc])) xs"
  by (induction xs) auto

lemma dataframe_merge_columns:
  assumes "dataframe_merge st self = Inr (st', self')"
    and idx: "on_index self \<longrightarrow> join_columns self = []"
  shows "\<exists>ir. intersect_rows self' = Some ir
    \<and> columns ir = merged_columns (join_columns self) (columns (st (df1 self))) (columns (st (df2 self)))
    \<and> distinct (columns ir)
    \<and> (\<not> on_index self \<longrightarrow>
          set (join_columns self) \<subseteq> set (columns (st (df1 self))) \<inter> set (columns (st (df2 self))))"
  using assms(1)
proof (cases rule: dataframe_merge_parts)
  case (plain oj)
  from merge_outer_columns[OF plain(3)] idx plain(4) show ?thesis
    by (auto simp: filter_rows_def)
next
  case (dupes st1 ix oc params oj oj')
  let ?L = "columns (st (df1 self))" and ?R = "columns (st (df2 self))"
  let ?T = "temp_list ix @ [oc]"
  note d = drop_temp_columns_store[OF dupes(4)]
  then have neq: "df1 self \<noteq> df2 self" by simp
  note a = attach_temp_columns_store[OF dupes(2) neq]
  note sh = attach_temp_columns_shape[OF dupes(2)]
  let ?keys' = "(if on_index self then temp_list ix else join_columns self) @ [oc]"
  from a have p: "params = On ?keys'" by simp
  note m = merge_outer_columns[OF dupes(3)]
  have cols: "columns oj = merged_columns ?keys' (?L @ ?T) (?R @ ?T)"
    using m a by (simp add: p)
  have sub: "set ?keys' \<subseteq> set (?L @ ?T) \<inter> set (?R @ ?T)"
    using m a p by simp
  have fresh: "set ?T \<inter> (set ?L \<union> set ?R) = {}" using a by auto
  have keys: "set ?T \<subseteq> set ?keys'" using a by (auto simp: temp_list_def split: option.splits)
  have same: "\<forall>c \<in> set ?L \<union> set ?R. (c \<in> set ?keys') = (c \<in> set (join_columns self))"
    using fresh idx by (auto simp: temp_list_def split: option.splits)
  have shape: "\<forall>t \<in> set ?T. \<forall>c. t \<noteq> c @ ''_df1'' \<and> t \<noteq> c @ ''_df2''"
    and nm: "''_merge'' \<notin> set ?T"
    using sh by auto
  have "columns oj' = filter (\<lambda>c. c \<noteq> oc) (filter (\<lambda>c. c \<notin> set (temp_list ix)) (columns oj))"
    using d by blast
  then have co: "columns oj' = filter (\<lambda>c. c \<notin> set ?T) (columns oj)"
    by (simp only: filter_filter_temps)
  have "filter (\<lambda>c. c \<notin> set ?T) (columns oj) = merged_columns (join_columns self) ?L ?R"
    unfolding cols by (rule merged_columns_temps[OF fresh keys same shape nm])
  with co have c: "columns oj' = merged_columns (join_columns self) ?L ?R" by simp
  have "distinct (columns oj)" using m by blast
  then have dist: "distinct (columns oj')"
    unfolding co by (rule distinct_filter)
  have js: "\<not> on_index self \<longrightarrow> set (join_columns self) \<subseteq> set ?L \<inter> set ?R"
    using attach_temp_columns_keys[OF dupes(2) neq] by blast
  from c dist js dupes(5) show ?thesis by (simp add: filter_rows_def)
qed

lemma init_attributes_index:
  assumes "init_attributes st a1 a2 jc oi atol rtol n1 n2 = Inr (st', self)"
  shows "on_index self \<longrightarrow> join_columns self = []"
  using assms unfolding init_attributes_def
  by (auto simp: bind_err_eq_Inr split: prod.splits if_splits join_arg.splits)

lemma rename_columns_Inr:
  "rename_columns d new = Inr d' \<Longrightarrow> columns d' = new \<and> length (rows d') = length (rows d)"
  by (auto simp: rename_columns_def split: if_splits)

lemma select_columns_len:
  "select_columns d ns = Inr d' \<Longrightarrow> length (rows d') = length (rows d)"
  by (auto simp: select_columns_def split: list.splits)

lemma dataframe_merge_unq:
  assumes "dataframe_merge st self = Inr (st', self')"
  shows "\<exists>u1 u2. df1_unq_rows self' = Some u1 \<and> df2_unq_rows self' = Some u2
     \<and> columns u1 = columns (st' (df1 self)) \<and> columns u2 = columns (st' (df2 self))"
  using assms unfolding dataframe_merge_def
  by (auto simp: bind_err_eq_Inr split: prod.splits dest!: rename_columns_Inr)

subsection \<open>Validation\<close>

lemma validate_not_a_frame:
  "validate_dataframe st j oi d idx OtherObject = Inl (TypeError (idx @ '' must be a pandas DataFrame''))"
  by (simp add: validate_dataframe_def)

lemma validate_missing_join_columns:
  "\<not> set j \<subseteq> set (map lower (columns (st r))) \<Longrightarrow>
   validate_dataframe st j oi d idx (DataFrameRef r)
     = Inl (ValueError (idx @ '' must have all columns from join_columns''))"
  by (simp add: validate_dataframe_def rename_lower Let_def)

lemma validate_duplicate_columns:
  "set j \<subseteq> set (map lower (columns (st r))) \<Longrightarrow> \<not> distinct (map lower (columns (st r))) \<Longrightarrow>
   validate_dataframe st j oi d idx (DataFrameRef r)
     = Inl (ValueError (idx @ '' must have unique column names''))"
  by (simp add: validate_dataframe_def rename_lower Let_def card_image_less_length_iff)

lemma init_attributes_resolved:
  assumes "oi = (jc = JNone)"
  shows "init_attributes st a1 a2 jc oi atol rtol n1 n2 =
     bind_err (validate_dataframe st (resolve_join jc oi) oi False ''df1'' a1) (\<lambda>(st1, dupes1, r1).
     bind_err (validate_dataframe st1 (resolve_join jc oi) oi dupes1 ''df2'' a2) (\<lambda>(st2, dupes2, r2).
     Inr (st2,
       \<lparr>join_columns = resolve_join jc oi, on_index = oi, any_dupes = dupes2,
        df1 = r1, df2 = r2, df1_name = n1, df2_name = n2,
        abs_tol = atol, rel_tol = rtol,
        df1_unq_rows = None, df2_unq_rows = None, intersect_rows = None,
        column_stats = []\<rparr>)))"
  using assms by (cases jc; cases oi) (simp_all add: init_attributes_def resolve_join_def)

lemma columns_after_first_validation:
  assumes "validate_dataframe st j oi d idx a = Inr (st1, d1, r1)"
  shows "map lower (columns (st1 r)) = map lower (columns (st r))"
  using validate_dataframe_Inr[OF assms] by simp

subsection \<open>Counting and sampling the matched rows\<close>

lemma init_attributes_tolerances:
  assumes "init_attributes st a1 a2 jc oi atol rtol n1 n2 = Inr (st0, self)"
  shows "init_attributes st a1 a2 jc oi atol' rtol' n1 n2
           = Inr (st0, self\<lparr>abs_tol := atol', rel_tol := rtol'\<rparr>)"
  using assms unfolding init_attributes_def
  by (auto simp: bind_err_eq_Inr split: prod.splits if_splits join_arg.splits)

lemma attach_temp_columns_tolerances:
  "attach_temp_columns st (self\<lparr>abs_tol := a, rel_tol := r\<rparr>) = attach_temp_columns st self"
  by (simp add: attach_temp_columns_def)

lemma drop_temp_columns_tolerances:
  "drop_temp_columns st (self\<lparr>abs_tol := a, rel_tol := r\<rparr>) oj ix oc = drop_temp_columns st self oj ix oc"
  by (cases ix) (simp_all add: drop_temp_columns_def)

lemma dataframe_merge_tolerances:
  assumes "dataframe_merge st self = Inr (st', self')"
  shows "dataframe_merge st (self\<lparr>abs_tol := a, rel_tol := r\<rparr>)
           = Inr (st', self'\<lparr>abs_tol := a, rel_tol := r\<rparr>)"
  using assms unfolding dataframe_merge_def
  by (auto simp: bind_err_eq_Inr attach_temp_columns_tolerances drop_temp_columns_tolerances
      split: prod.splits)

lemma value_equal_mono:
  assumes "atol \<le> atol'" and "rtol \<le> rtol'" and "value_equal rtol atol a b"
  shows "value_equal rtol' atol' a b"
proof -
  have "atol + rtol * \<bar>y\<bar> \<le> atol' + rtol' * \<bar>y\<bar>" for y :: real
    using assms(1,2) by (simp add: add_mono mult_right_mono)
  then have h: "x \<le> atol + rtol * \<bar>y\<bar> \<Longrightarrow> x \<le> atol' + rtol' * \<bar>y\<bar>" for x y :: real
    by (rule order_trans[rotated])
  from assms(3) show ?thesis
    by (auto simp: value_equal_def split: if_splits cell.splits intro: h)
qed

lemma length_filter_mono:
  "(\<And>x. x \<in> set xs \<Longrightarrow> P x \<Longrightarrow> Q x) \<Longrightarrow> length (filter P xs) \<le> length (filter Q xs)"
  by (induction xs) auto

lemma filter_row_matches_add_matches:
  "length (filter (row_matches cs) (rows (add_matches rtol atol cs d)))
     = length (filter (values_match rtol atol cs) (rows d))"
proof -
  have "row_matches cs (l, fold (add_match rtol atol) cs r) = values_match rtol atol cs (l, r)" for l r
    by (simp add: row_matches_def values_match_def cell_of_fold_match)
  then have "filter (row_matches cs \<circ> (\<lambda>(l, r). (l, fold (add_match rtol atol) cs r))) (rows d)
           = filter (values_match rtol atol cs) (rows d)"
    by (intro filter_cong) auto
  then show ?thesis
    by (simp add: rows_add_matches filter_map)
qed

lemma nth_remove_position:
  assumes "j < length xs - 1" and "i < length xs"
  shows "(take i xs @ drop (Suc i) xs) ! j = xs ! (if j < i then j else Suc j)"
  using assms by (auto simp: nth_append min_def)

lemma sample_list_positions:
  "\<exists>ps. distinct ps \<and> set ps \<subseteq> {..<length xs} \<and> length ps = min n (length xs)
        \<and> sample_list rnd n xs = map ((!) xs) ps"
proof (induction n arbitrary: rnd xs)
  case 0
  show ?case by (rule exI[of _ "[]"]) simp
next
  case (Suc n)
  show ?case
  proof (cases xs)
    case Nil
    then show ?thesis by (intro exI[of _ "[]"]) simp
  next
    case (Cons y ys)
    define i where "i = (case rnd of [] \<Rightarrow> 0 | k # ks \<Rightarrow> k mod length xs)"
    have i: "i < length xs" unfolding i_def using Cons by (cases rnd) auto
    define zs where "zs = take i xs @ drop (Suc i) xs"
    have lz: "length zs = length xs - 1" using i by (auto simp: zs_def)
    from Suc.IH[where rnd="tl rnd" and xs=zs] obtain ps where ps: "distinct ps" "set ps \<subseteq> {..<length zs}"
      "length ps = min n (length zs)" "sample_list (tl rnd) n zs = map ((!) zs) ps"
      by blast
    define shift where "shift j = (if j < i then j else Suc j)" for j
    have inj: "inj shift" by (auto simp: inj_def shift_def split: if_splits)
    have ne: "shift j \<noteq> i" for j by (auto simp: shift_def)
    have z: "zs ! j = xs ! shift j" if "j < length zs" for j
      using that i lz unfolding zs_def shift_def by (intro nth_remove_position) auto
    have m: "map ((!) zs) ps = map ((!) xs) (map shift ps)"
      using ps(2) z by (auto simp: subset_iff)
    have sl: "sample_list rnd (Suc n) xs = xs ! i # sample_list (tl rnd) n zs"
      unfolding Cons i_def zs_def by (simp add: Let_def Cons)
    have "distinct (i # map shift ps)"
      using ps(1) inj ne by (auto simp: distinct_map intro: inj_on_subset)
    moreover have "set (i # map shift ps) \<subseteq> {..<length xs}"
      using i ps(2) lz by (auto simp: shift_def subset_iff)
    moreover have "length (i # map shift ps) = min (Suc n) (length xs)"
      using ps(3) lz i by auto
    moreover have "sample_list rnd (Suc n) xs = map ((!) xs) (i # map shift ps)"
      by (simp add: sl ps(4) m)
    ultimately show ?thesis by blast
  qed
qed

lemma filter_positions:
  "\<exists>qs. distinct qs \<and> (\<forall>q \<in> set qs. q < length xs \<and> P (xs ! q)) \<and> filter P xs = map ((!) xs) qs"
proof (induction xs)
  case Nil
  show ?case by (rule exI[of _ "[]"]) simp
next
  case (Cons x xs)
  then obtain qs where qs: "distinct qs" "\<forall>q \<in> set qs. q < length xs \<and> P (xs ! q)"
    "filter P xs = map ((!) xs) qs" by blast
  let ?qs = "(if P x then [0] else []) @ map Suc qs"
  have "distinct ?qs" using qs(1) by (auto simp: distinct_map)
  moreover have "\<forall>q \<in> set ?qs. q < length (x # xs) \<and> P ((x # xs) ! q)" using qs(2) by auto
  moreover have "filter P (x # xs) = map ((!) (x # xs)) ?qs" using qs(3) by (simp add: o_def)
  ultimately show ?case by blast
qed

lemma sample_filter_positions:
  "\<exists>ps. distinct ps \<and> (\<forall>p \<in> set ps. p < length xs \<and> P (xs ! p))
        \<and> length ps = min n (length (filter P xs))
        \<and> sample_list rnd n (filter P xs) = map ((!) xs) ps"
proof -
  from filter_positions[of xs P] obtain qs where qs: "distinct qs"
    "\<forall>q \<in> set qs. q < length xs \<and> P (xs ! q)" "filter P xs = map ((!) xs) qs" by blast
  from sample_list_positions[of "filter P xs" n rnd] obtain ps where ps: "distinct ps"
    "set ps \<subseteq> {..<length (filter P xs)}" "length ps = min n (length (filter P xs))"
    "sample_list rnd n (filter P xs) = map ((!) (filter P xs)) ps" by blast
  have lq: "length (filter P xs) = length qs" using qs(3) by (metis length_map)
  let ?rs = "map ((!) qs) ps"
  have "distinct ?rs"
    using ps(1,2) qs(1) lq by (auto simp: distinct_map inj_on_def nth_eq_iff_index_eq subset_iff)
  moreover have "\<forall>p \<in> set ?rs. p < length xs \<and> P (xs ! p)"
    using ps(2) qs(2) lq by (auto simp: subset_iff)
  moreover have "sample_list rnd n (filter P xs) = map ((!) xs) ?rs"
    using ps(2,4) lq by (auto simp: qs(3) subset_iff)
  ultimately show ?thesis using ps(3) by (intro exI[of _ ?rs]) simp
qed

lemma key_in_merged_columns:
  "j \<in> set keys \<Longrightarrow> j \<in> set L \<Longrightarrow> j \<in> set (merged_columns keys L R)"
  by (auto simp: merged_columns_def suffixed_def image_iff intro!: bexI[of _ j])

lemma completed_columns:
  assumes "init st a1 a2 jc oi atol rtol n1 n2 = Inr (st', c)"
  obtains ir where
    "intersect_rows c = Some (add_matches rtol atol (compared_columns st' c) ir)"
    "set (join_columns c) \<subseteq> set (columns ir)"
    "\<forall>x \<in> set (compared_columns st' c).
        x @ ''_df1'' \<in> set (columns ir) \<and> x @ ''_df2'' \<in> set (columns ir)"
proof -
  from assms obtain st0 self self1 where
    ia: "init_attributes st a1 a2 jc oi atol rtol n1 n2 = Inr (st0, self)"
    and m: "dataframe_merge st0 self = Inr (st', self1)"
    and ic: "intersect_compare st' self1 = Inr c"
    and r: "df1 c = df1 self" "df2 c = df2 self" "join_columns c = join_columns self"
    by (rule init_parts)
  note idx = init_attributes_index[OF ia]
  from dataframe_merge_columns[OF m idx] obtain ir where
    ir: "intersect_rows self1 = Some ir"
      "columns ir = merged_columns (join_columns self) (columns (st0 (df1 self))) (columns (st0 (df2 self)))"
      "\<not> on_index self \<longrightarrow>
          set (join_columns self) \<subseteq> set (columns (st0 (df1 self))) \<inter> set (columns (st0 (df2 self)))"
    by blast
  from dataframe_merge_Inr[OF m] init_attributes_Inr[OF ia] have j1: "join_columns self1 = join_columns self"
    "df1 self1 = df1 self" "df2 self1 = df2 self" "rel_tol self1 = rtol" "abs_tol self1 = atol"
    by auto
  have cc: "compared_columns st' self1 = compared_columns st' c"
    by (simp add: compared_columns_def intersect_columns_def r j1)
  from intersect_compare_Inr[OF ic ir(1)] obtain stats where
    cdef: "c = self1\<lparr>intersect_rows :=
              Some (add_matches (rel_tol self1) (abs_tol self1) (compared_columns st' self1) ir),
            column_stats := column_stats self1 @ stats\<rparr>"
    and b': "\<forall>x \<in> set (compared_columns st' self1).
        x @ ''_df1'' \<in> set (columns ir) \<and> x @ ''_df2'' \<in> set (columns ir)"
    by blast
  have "intersect_rows c
      = Some (add_matches (rel_tol self1) (abs_tol self1) (compared_columns st' self1) ir)"
    by (subst cdef) simp
  then have a: "intersect_rows c = Some (add_matches rtol atol (compared_columns st' c) ir)"
    unfolding cc j1 .
  from b' have b: "\<forall>x \<in> set (compared_columns st' c).
        x @ ''_df1'' \<in> set (columns ir) \<and> x @ ''_df2'' \<in> set (columns ir)"
    unfolding cc .
  have js: "set (join_columns c) \<subseteq> set (columns ir)"
  proof (cases "on_index self")
    case True
    with idx show ?thesis by (simp add: r)
  next
    case False
    with ir(3) show ?thesis
      unfolding r ir(2) by (auto intro: key_in_merged_columns)
  qed
  show thesis by (rule that[OF a js b])
qed

lemma count_bool_split:
  assumes "\<forall>x \<in> set xs. \<exists>b. f x = Bool b"
  shows "int (length xs) - int (length (filter (\<lambda>x. f x = Bool True) xs))
           = int (length (filter (\<lambda>x. f x = Bool False) xs))"
  using assms
proof (induction xs)
  case Nil
  then show ?case by simp
next
  case (Cons x xs)
  then obtain b where "f x = Bool b" by auto
  with Cons show ?case by (cases b) auto
qed

lemma sample_Inr:
  assumes "0 \<le> n" and "n \<le> int (len d)"
  shows "sample rnd d n = Inr (d\<lparr>rows := sample_list rnd (nat n) (rows d)\<rparr>)"
  using assms by (simp add: sample_def)

lemma scenario_wide_completes: "scenario_wide = Inr scenario_wide_result"
proof -
  have "\<not> isl scenario_wide" by code_simp
  then show ?thesis by (simp add: scenario_wide_result_def)
qed

lemma scenario_wide_init:
  "init scenario_store (DataFrameRef 0) (DataFrameRef 1) (JStr ''id'') False 0.2 0 ''df1'' ''df2''
     = Inr (fst scenario_wide_result, snd scenario_wide_result)"
  using scenario_wide_completes by (simp add: scenario_wide_def)

subsection \<open>The input frames after the merge\<close>

text \<open>
  Attaching a column that a tidy frame does not have, and dropping it again, gives the
  frame back: the merge leaves both inputs exactly as the validation left them, which is
  the input with its labels in lower case.
\<close>

lemma delete_update_fresh: "k \<notin> fst ` set al \<Longrightarrow> AList.delete k (AList.update k v al) = al"
  by (induction al) (auto simp: AList.delete_eq)

lemma delete_update_other:
  "a \<noteq> b \<Longrightarrow> AList.delete a (AList.update b v al) = AList.update b v (AList.delete a al)"
  by (induction al) (auto simp: AList.delete_eq)

lemma tidy_lowered: "tidy (lowered d)"
  unfolding tidy_def lowered_def rename_row_def cells_of_def by (auto simp: case_prod_unfold)

lemma drop_set_column:
  assumes t: "tidy d" and n: "n \<notin> set (columns d)" and l: "length (rows d) \<le> length vs"
  shows "drop_column (set_column d n t vs) n = Inr d"
proof -
  let ?F = "\<lambda>(l, r). (l, AList.delete n r)"
  let ?G = "\<lambda>((l, r), v). (l, AList.update n v r)"
  have c: "filter (\<lambda>c. c \<noteq> n) (columns (set_column d n t vs)) = columns d"
    using n by (auto simp: columns_set_column filter_id_conv)
  from t n have "n \<notin> fst ` set (dtypes d)" unfolding tidy_def by (metis set_map)
  then have dt: "AList.delete n (dtypes (set_column d n t vs)) = dtypes d"
    unfolding set_column_def by (simp add: delete_update_fresh)
  have pt: "?F (?G p) = fst p" if "p \<in> set (zip (rows d) vs)" for p
  proof -
    obtain l r v where p: "p = ((l, r), v)" by (metis prod.exhaust)
    with that have "(l, r) \<in> set (rows d)" by (auto dest: set_zip_leftD)
    with t n have "n \<notin> fst ` set r" unfolding tidy_def by (metis set_map snd_conv)
    then show ?thesis unfolding p by (simp add: delete_update_fresh)
  qed
  have r: "map ?F (rows (set_column d n t vs)) = rows d"
  proof -
    have "rows (set_column d n t vs) = map ?G (zip (rows d) vs)"
      unfolding set_column_def by simp
    then have "map ?F (rows (set_column d n t vs)) = map (\<lambda>p. ?F (?G p)) (zip (rows d) vs)"
      by (simp only: map_map o_def)
    also have "\<dots> = map fst (zip (rows d) vs)" by (rule map_cong[OF refl]) (rule pt)
    also have "\<dots> = rows d" using l by (simp add: map_fst_zip_take)
    finally show ?thesis .
  qed
  show ?thesis unfolding drop_column_Inr
  proof
    show "n \<in> set (columns (set_column d n t vs))" by (simp add: columns_set_column)
    show "d = set_column d n t vs
      \<lparr>columns := filter (\<lambda>c. c \<noteq> n) (columns (set_column d n t vs)),
       dtypes := AList.delete n (dtypes (set_column d n t vs)),
       rows := map ?F (rows (set_column d n t vs))\<rparr>"
      unfolding c dt r by (simp add: set_column_def)
  qed
qed

lemma drop_set_column_other:
  assumes t: "tidy d" and a: "a \<notin> set (columns d)" and ab: "a \<noteq> b"
    and l: "length (rows d) \<le> length va"
  shows "drop_column (set_column (set_column d a ta va) b tb vb) a = Inr (set_column d b tb vb)"
proof -
  let ?e = "set_column (set_column d a ta va) b tb vb"
  let ?F = "\<lambda>(l, r). (l, AList.delete a r)"
  let ?A = "\<lambda>((l, r), v). (l, AList.update a v r)"
  let ?B = "\<lambda>((l, r), v). (l, AList.update b v r)"
  have c: "filter (\<lambda>c. c \<noteq> a) (columns ?e) = columns (set_column d b tb vb)"
    using a ab by (auto simp: columns_set_column filter_id_conv)
  from t a have "a \<notin> fst ` set (dtypes d)" unfolding tidy_def by (metis set_map)
  then have dt: "AList.delete a (dtypes ?e) = dtypes (set_column d b tb vb)"
    unfolding set_column_def using ab by (simp add: delete_update_other delete_update_fresh)
  have pt: "?F (?B (?A p, w)) = ?B (fst p, w)" if "p \<in> set (zip (rows d) va)" for p w
  proof -
    obtain l r v where p: "p = ((l, r), v)" by (metis prod.exhaust)
    with that have "(l, r) \<in> set (rows d)" by (auto dest: set_zip_leftD)
    with t a have "a \<notin> fst ` set r" unfolding tidy_def by (metis set_map snd_conv)
    then show ?thesis unfolding p using ab by (simp add: delete_update_other delete_update_fresh)
  qed
  have r: "map ?F (rows ?e) = rows (set_column d b tb vb)"
  proof -
    have "rows ?e = map ?B (zip (map ?A (zip (rows d) va)) vb)"
      unfolding set_column_def by simp
    also have "\<dots> = map (\<lambda>q. ?B (?A (fst q), snd q)) (zip (zip (rows d) va) vb)"
      by (simp add: zip_map1 case_prod_unfold)
    finally have "map ?F (rows ?e)
        = map (\<lambda>q. ?F (?B (?A (fst q), snd q))) (zip (zip (rows d) va) vb)"
      by (simp only: map_map o_def)
    also have "\<dots> = map (\<lambda>q. ?B (fst (fst q), snd q)) (zip (zip (rows d) va) vb)"
    proof (rule map_cong[OF refl])
      fix q
      assume "q \<in> set (zip (zip (rows d) va) vb)"
      then have "fst q \<in> set (zip (rows d) va)" by (metis prod.collapse set_zip_leftD)
      from pt[OF this] show "?F (?B (?A (fst q), snd q)) = ?B (fst (fst q), snd q)" .
    qed
    also have "\<dots> = map ?B (zip (map fst (zip (rows d) va)) vb)"
      by (simp add: zip_map1 case_prod_unfold)
    also have "map fst (zip (rows d) va) = rows d" using l by (simp add: map_fst_zip_take)
    finally show ?thesis unfolding set_column_def by simp
  qed
  show ?thesis unfolding drop_column_Inr
  proof
    show "a \<in> set (columns ?e)" by (simp add: columns_set_column)
    show "set_column d b tb vb = ?e
      \<lparr>columns := filter (\<lambda>c. c \<noteq> a) (columns ?e),
       dtypes := AList.delete a (dtypes ?e),
       rows := map ?F (rows ?e)\<rparr>"
      unfolding c dt r by (simp add: set_column_def)
  qed
qed

lemma set_column_series_shape:
  assumes "set_column_series d n t s = Inr d'"
  shows "\<exists>vs. d' = set_column d n t vs \<and> length (rows d) \<le> length vs"
proof -
  consider (pos) "map fst s = index d \<or> rows d = []" "d' = set_column d n t (map snd s)"
    | (lab) "d' = set_column d n t
          (map (\<lambda>l. case map_of s l of None \<Rightarrow> Null | Some v \<Rightarrow> v) (index d))"
    using assms unfolding set_column_series_def by (auto split: if_splits)
  then show ?thesis
  proof cases
    case pos
    from pos(1) have "length (rows d) \<le> length (map snd s)"
    proof
      assume "map fst s = index d"
      then have "length (map fst s) = length (index d)" by simp
      then show ?thesis unfolding index_def by simp
    next
      assume "rows d = []"
      then show ?thesis by simp
    qed
    with pos(2) show ?thesis by blast
  next
    case lab
    have "length (rows d) \<le> length (map (\<lambda>l. case map_of s l of None \<Rightarrow> Null | Some v \<Rightarrow> v) (index d))"
      unfolding index_def by simp
    with lab show ?thesis by blast
  qed
qed

lemma set_column_index_rows:
  "rows (set_column d n t (index d)) = map (\<lambda>(l, r). (l, AList.update n l r)) (rows d)"
  unfolding set_column_def index_def
  by (simp add: zip_map2 zip_same_conv_map o_def case_prod_unfold)

lemma attach_temp_columns_parts:
  assumes at: "attach_temp_columns st self = Inr (st', ix, oc, params)"
    and neq: "df1 self \<noteq> df2 self"
  obtains c s2 tj sorted1 order1 d1 sorted2 order2 d2 where
    "c = temp_column_name (st (df1 self)) (st (df2 self))"
    "s2 = (if on_index self then
       (st(df1 self := set_column (st (df1 self)) c ''object'' (index (st (df1 self)))))
         (df2 self := set_column (st (df2 self)) c ''object'' (index (st (df2 self))))
       else st)"
    "tj = (if on_index self then [c] else join_columns self)"
    "ix = (if on_index self then Some c else None)"
    "sort_values (s2 (df1 self)) (columns (s2 (df1 self))) = Inr sorted1"
    "groupby_cumcount sorted1 tj = Inr order1"
    "set_column_series (s2 (df1 self)) oc ''int64'' order1 = Inr d1"
    "sort_values (s2 (df2 self)) (columns (s2 (df2 self))) = Inr sorted2"
    "groupby_cumcount sorted2 tj = Inr order2"
    "set_column_series (s2 (df2 self)) oc ''int64'' order2 = Inr d2"
    "st' (df1 self) = d1" "st' (df2 self) = d2"
    "oc = temp_column_name (s2 (df1 self)) (s2 (df2 self))"
    "params = On (tj @ [oc])"
proof -
  let ?r1 = "df1 self" and ?r2 = "df2 self"
  define c where "c = temp_column_name (st ?r1) (st ?r2)"
  define s2 where "s2 = (if on_index self then
       (st(?r1 := set_column (st ?r1) c ''object'' (index (st ?r1))))
         (?r2 := set_column (st ?r2) c ''object'' (index (st ?r2)))
       else st)"
  define tj where "tj = (if on_index self then [c] else join_columns self)"
  from at neq obtain sorted1 order1 d1 sorted2 order2 d2 where
    "ix = (if on_index self then Some c else None)"
    "sort_values (s2 ?r1) (columns (s2 ?r1)) = Inr sorted1"
    "groupby_cumcount sorted1 tj = Inr order1"
    "set_column_series (s2 ?r1) oc ''int64'' order1 = Inr d1"
    "sort_values (s2 ?r2) (columns (s2 ?r2)) = Inr sorted2"
    "groupby_cumcount sorted2 tj = Inr order2"
    "set_column_series (s2 ?r2) oc ''int64'' order2 = Inr d2"
    "st' ?r1 = d1" "st' ?r2 = d2"
    "oc = temp_column_name (s2 ?r1) (s2 ?r2)"
    "params = On (tj @ [oc])"
    unfolding attach_temp_columns_def s2_def tj_def c_def
    by (auto simp: bind_err_eq_Inr Let_def split: if_splits)
  with c_def s2_def tj_def show thesis by (rule that)
qed

lemma drop_temp_columns_parts:
  assumes dt: "drop_temp_columns st self oj ix oc = Inr (st', oj')"
  obtains m1 m2 where
    "df1 self \<noteq> df2 self"
    "case ix of None \<Rightarrow> m1 = st (df1 self) | Some c \<Rightarrow> drop_column (st (df1 self)) c = Inr m1"
    "case ix of None \<Rightarrow> m2 = st (df2 self) | Some c \<Rightarrow> drop_column (st (df2 self)) c = Inr m2"
    "drop_column m1 oc = Inr (st' (df1 self))"
    "drop_column m2 oc = Inr (st' (df2 self))"
proof -
  from drop_temp_columns_store[OF dt] have neq: "df1 self \<noteq> df2 self" by simp
  from dt obtain st2 oj2 d1 d2 where
    first: "(case ix of
          None \<Rightarrow> Inr (st, oj)
        | Some ic \<Rightarrow>
            bind_err (set_index_from oj ic) (\<lambda>oj1.
            bind_err (drop_column oj1 ic) (\<lambda>oj2.
            bind_err (drop_column (st (df1 self)) ic) (\<lambda>d1.
            let st1 = st(df1 self := d1) in
            bind_err (drop_column (st1 (df2 self)) ic) (\<lambda>d2.
            Inr (st1(df2 self := d2), oj2)))))) = Inr (st2, oj2)"
    and e1: "drop_column (st2 (df1 self)) oc = Inr d1"
    and e2: "drop_column ((st2(df1 self := d1)) (df2 self)) oc = Inr d2"
    and st': "st' = (st2(df1 self := d1))(df2 self := d2)"
    unfolding drop_temp_columns_def by (auto simp: bind_err_eq_Inr Let_def)
  from e2 neq have e2': "drop_column (st2 (df2 self)) oc = Inr d2" by simp
  have s1: "st' (df1 self) = d1" and s2: "st' (df2 self) = d2" unfolding st' using neq by simp_all
  have "(case ix of None \<Rightarrow> st2 (df1 self) = st (df1 self)
           | Some c \<Rightarrow> drop_column (st (df1 self)) c = Inr (st2 (df1 self)))
      \<and> (case ix of None \<Rightarrow> st2 (df2 self) = st (df2 self)
           | Some c \<Rightarrow> drop_column (st (df2 self)) c = Inr (st2 (df2 self)))"
  proof (cases ix)
    case None
    with first show ?thesis by simp
  next
    case (Some c)
    from first obtain b1 b2 where
      f3: "drop_column (st (df1 self)) c = Inr b1"
      and f4: "drop_column ((st(df1 self := b1)) (df2 self)) c = Inr b2"
      and s2: "st2 = (st(df1 self := b1))(df2 self := b2)"
      unfolding Some by (auto simp: bind_err_eq_Inr Let_def)
    from f4 neq have "drop_column (st (df2 self)) c = Inr b2" by simp
    with f3 neq show ?thesis unfolding Some s2 by simp
  qed
  with neq e1 e2' show thesis unfolding s1[symmetric] s2[symmetric] by (intro that) simp_all
qed

lemma attach_drop_frames:
  assumes at: "attach_temp_columns st self = Inr (st1, ix, oc, params)"
    and dt: "drop_temp_columns st1 self oj ix oc = Inr (st', oj')"
    and t1: "tidy (st (df1 self))" and t2: "tidy (st (df2 self))"
  shows "st' (df1 self) = st (df1 self)" and "st' (df2 self) = st (df2 self)"
proof -
  from dt obtain m1 m2 where neq: "df1 self \<noteq> df2 self"
    and m1: "case ix of None \<Rightarrow> m1 = st1 (df1 self)
               | Some c \<Rightarrow> drop_column (st1 (df1 self)) c = Inr m1"
    and m2: "case ix of None \<Rightarrow> m2 = st1 (df2 self)
               | Some c \<Rightarrow> drop_column (st1 (df2 self)) c = Inr m2"
    and e1: "drop_column m1 oc = Inr (st' (df1 self))"
    and e2: "drop_column m2 oc = Inr (st' (df2 self))"
    by (rule drop_temp_columns_parts)
  from at neq obtain c s2 tj sorted1 order1 d1 sorted2 order2 d2 where
    c: "c = temp_column_name (st (df1 self)) (st (df2 self))"
    and s2: "s2 = (if on_index self then
       (st(df1 self := set_column (st (df1 self)) c ''object'' (index (st (df1 self)))))
         (df2 self := set_column (st (df2 self)) c ''object'' (index (st (df2 self))))
       else st)"
    and "tj = (if on_index self then [c] else join_columns self)"
    and ix: "ix = (if on_index self then Some c else None)"
    and "sort_values (s2 (df1 self)) (columns (s2 (df1 self))) = Inr sorted1"
    and "groupby_cumcount sorted1 tj = Inr order1"
    and c1: "set_column_series (s2 (df1 self)) oc ''int64'' order1 = Inr d1"
    and "sort_values (s2 (df2 self)) (columns (s2 (df2 self))) = Inr sorted2"
    and "groupby_cumcount sorted2 tj = Inr order2"
    and c2: "set_column_series (s2 (df2 self)) oc ''int64'' order2 = Inr d2"
    and st1: "st1 (df1 self) = d1" "st1 (df2 self) = d2"
    and oc: "oc = temp_column_name (s2 (df1 self)) (s2 (df2 self))"
    by (rule attach_temp_columns_parts)
  have fc: "c \<notin> set (columns (st (df1 self))) \<union> set (columns (st (df2 self)))"
    unfolding c by (rule temp_column_name_fresh)
  have fo: "oc \<notin> set (columns (s2 (df1 self))) \<union> set (columns (s2 (df2 self)))"
    unfolding oc by (rule temp_column_name_fresh)
  have one: "e = st r"
    if r: "r = df1 self \<or> r = df2 self" and t: "tidy (st r)"
      and cs: "set_column_series (s2 r) oc ''int64'' ord = Inr (st1 r)"
      and m: "case ix of None \<Rightarrow> m = st1 r | Some c \<Rightarrow> drop_column (st1 r) c = Inr m"
      and e: "drop_column m oc = Inr e" for r ord m e
  proof -
    from set_column_series_shape[OF cs] obtain vs where
      v: "st1 r = set_column (s2 r) oc ''int64'' vs" and lv: "length (rows (s2 r)) \<le> length vs"
      by blast
    from fo r have fo': "oc \<notin> set (columns (s2 r))" by auto
    from fc r have fc': "c \<notin> set (columns (st r))" by auto
    show ?thesis
    proof (cases "on_index self")
      case False
      then have "s2 r = st r" unfolding s2 by simp
      with False m v ix have "m = set_column (st r) oc ''int64'' vs" by simp
      moreover from fo' lv \<open>s2 r = st r\<close> have "oc \<notin> set (columns (st r))"
        "length (rows (st r)) \<le> length vs" by simp_all
      note drop_set_column[OF t this]
      ultimately show ?thesis using e by simp
    next
      case True
      with r neq have sr: "s2 r = set_column (st r) c ''object'' (index (st r))"
        unfolding s2 by auto
      have lr: "length (rows (s2 r)) = length (rows (st r))"
        unfolding sr set_column_index_rows by simp
      from fo' have co: "c \<noteq> oc" and fo'': "oc \<notin> set (columns (st r))"
        unfolding sr by (auto simp: columns_set_column split: if_splits)
      from True m ix have "drop_column (st1 r) c = Inr m" by simp
      moreover have "length (rows (st r)) \<le> length (index (st r))" unfolding index_def by simp
      note drop_set_column_other[OF t fc' co this,
          where ta = "''object''" and tb = "''int64''" and vb = vs]
      ultimately have "m = set_column (st r) oc ''int64'' vs" unfolding v sr by simp
      moreover from lv lr have "length (rows (st r)) \<le> length vs" by simp
      note drop_set_column[OF t fo'' this]
      ultimately show ?thesis using e by simp
    qed
  qed
  from one[OF _ t1 c1[folded st1(1)] m1 e1] show "st' (df1 self) = st (df1 self)" by simp
  from one[OF _ t2 c2[folded st1(2)] m2 e2] show "st' (df2 self) = st (df2 self)" by simp
qed

lemma dataframe_merge_frames:
  assumes dm: "dataframe_merge st self = Inr (st', self')"
    and t1: "tidy (st (df1 self))" and t2: "tidy (st (df2 self))"
  shows "st' (df1 self) = st (df1 self)" and "st' (df2 self) = st (df2 self)"
proof -
  from dm have "st' (df1 self) = st (df1 self) \<and> st' (df2 self) = st (df2 self)"
  proof (cases rule: dataframe_merge_parts)
    case (plain oj)
    then show ?thesis by simp
  next
    case (dupes st1 ix oc params oj oj')
    from attach_drop_frames[OF dupes(2,4) t1 t2] show ?thesis by simp
  qed
  then show "st' (df1 self) = st (df1 self)" and "st' (df2 self) = st (df2 self)" by simp_all
qed

lemma cell_of_zip_nth:
  assumes "distinct ks" and "i < length ks" and "length ks = length vs"
  shows "cell_of (zip ks vs) (ks ! i) = vs ! i"
  unfolding cell_of_def using map_of_zip_nth[of ks vs i] assms by simp

lemma cells_of_zip_self:
  assumes "distinct ks" and "length ks = length vs"
  shows "cells_of ks (zip ks vs) = vs"
proof (rule nth_equalityI)
  show "length (cells_of ks (zip ks vs)) = length vs" unfolding cells_of_def using assms by simp
  fix i
  assume "i < length (cells_of ks (zip ks vs))"
  then have i: "i < length ks" unfolding cells_of_def by simp
  from cell_of_zip_nth[OF assms(1) i assms(2)] i
  show "cells_of ks (zip ks vs) ! i = vs ! i" unfolding cells_of_def by simp
qed

lemma dtype_of_lowered:
  assumes "distinct (map lower (columns d))" and "i < length (columns d)"
  shows "dtype_of (lowered d) (lower (columns d ! i)) = dtype_of d (columns d ! i)"
proof -
  from assms(2) have i: "i < length (map lower (columns d))" by simp
  have "map_of (zip (map lower (columns d)) (map (dtype_of d) (columns d))) (map lower (columns d) ! i)
      = Some (map (dtype_of d) (columns d) ! i)"
    by (rule map_of_zip_nth) (use assms i in simp_all)
  moreover have "dtypes (lowered d) = zip (map lower (columns d)) (map (dtype_of d) (columns d))"
    unfolding lowered_def by simp
  ultimately show ?thesis using assms(2) by (simp add: dtype_of_def[of "lowered d"])
qed

lemma lowered_idem:
  assumes d: "distinct (map lower (columns d))"
  shows "lowered (lowered d) = lowered d"
proof -
  let ?n = "map lower (columns d)"
  have c: "columns (lowered d) = ?n" by simp
  have dt: "map (dtype_of (lowered d)) ?n = map (dtype_of d) (columns d)"
  proof (rule nth_equalityI)
    show "length (map (dtype_of (lowered d)) ?n) = length (map (dtype_of d) (columns d))" by simp
    fix i
    assume "i < length (map (dtype_of (lowered d)) ?n)"
    then have i: "i < length (columns d)" by simp
    from dtype_of_lowered[OF d i] i
    show "map (dtype_of (lowered d)) ?n ! i = map (dtype_of d) (columns d) ! i" by simp
  qed
  have r: "rename_row ?n ?n (rename_row (columns d) ?n r) = rename_row (columns d) ?n r" for r
    unfolding rename_row_def
    by (subst cells_of_zip_self[OF d]) (simp_all add: cells_of_def)
  have rows: "rows (lowered d) = map (\<lambda>(l, r). (l, rename_row (columns d) ?n r)) (rows d)"
    and dts: "dtypes (lowered d) = zip ?n (map (dtype_of d) (columns d))"
    unfolding lowered_def by simp_all
  show ?thesis
    unfolding lowered_def[of "lowered d"] c map_lower_idem dt
    by (simp add: rows dts r case_prod_unfold lowered_def)
qed

lemma init_attributes_frames:
  assumes "init_attributes st a1 a2 jc oi atol rtol n1 n2 = Inr (st0, self)"
  shows "st0 (df1 self) = lowered (st (df1 self))"
    and "st0 (df2 self) = lowered (st (df2 self))"
    and "distinct (map lower (columns (st (df1 self))))"
    and "distinct (map lower (columns (st (df2 self))))"
proof -
  from assms obtain j oi' st1 dupes1 r1 dupes2 r2 where
    v1: "validate_dataframe st j oi' False ''df1'' a1 = Inr (st1, dupes1, r1)"
    and v2: "validate_dataframe st1 j oi' dupes1 ''df2'' a2 = Inr (st0, dupes2, r2)"
    and self: "df1 self = r1" "df2 self = r2"
    unfolding init_attributes_def
    by (auto simp: bind_err_eq_Inr split: if_splits join_arg.splits)
  note w1 = validate_dataframe_Inr[OF v1] and w2 = validate_dataframe_Inr[OF v2]
  from w1 have s1: "st1 = st(r1 := lowered (st r1))"
    and d1: "distinct (map lower (columns (st r1)))" by simp_all
  from w2 have s0: "st0 = st1(r2 := lowered (st1 r2))"
    and d2': "distinct (map lower (columns (st1 r2)))" by simp_all
  have d2: "distinct (map lower (columns (st r2)))"
  proof (cases "r2 = r1")
    case True
    with d1 show ?thesis by simp
  next
    case False
    with d2' show ?thesis unfolding s1 by simp
  qed
  have "st0 r1 = lowered (st r1)"
    unfolding s0 s1 using lowered_idem[OF d1] by (cases "r2 = r1") simp_all
  moreover have "st0 r2 = lowered (st r2)"
    unfolding s0 s1 using lowered_idem[OF d2] by (cases "r2 = r1") simp_all
  ultimately show "st0 (df1 self) = lowered (st (df1 self))"
    and "st0 (df2 self) = lowered (st (df2 self))"
    and "distinct (map lower (columns (st (df1 self))))"
    and "distinct (map lower (columns (st (df2 self))))"
    unfolding self using d1 d2 by simp_all
qed

lemma completed_frames:
  assumes i: "init st a1 a2 jc oi atol rtol n1 n2 = Inr (st', c)"
  shows "st' (df1 c) = lowered (st (df1 c))" and "st' (df2 c) = lowered (st (df2 c))"
    and "distinct (map lower (columns (st (df1 c))))"
    and "distinct (map lower (columns (st (df2 c))))"
proof -
  from i obtain st0 self self1 where
    ia: "init_attributes st a1 a2 jc oi atol rtol n1 n2 = Inr (st0, self)"
    and dm: "dataframe_merge st0 self = Inr (st', self1)"
    and f: "df1 c = df1 self" "df2 c = df2 self"
    by (rule init_parts)
  note a = init_attributes_frames[OF ia]
  have t: "tidy (st0 (df1 self))" "tidy (st0 (df2 self))" unfolding a by (rule tidy_lowered)+
  from dataframe_merge_frames[OF dm t] a
  show "st' (df1 c) = lowered (st (df1 c))" and "st' (df2 c) = lowered (st (df2 c))"
    and "distinct (map lower (columns (st (df1 c))))"
    and "distinct (map lower (columns (st (df2 c))))"
    unfolding f by simp_all
qed

subsection \<open>The partition of the rows by the merge\<close>

text \<open>
  The outer merge marks every row of its result as \<open>left_only\<close>, \<open>right_only\<close> or \<open>both\<close>.
  When the keys of the merge are unique in both frames, every left row gives exactly one
  row marked \<open>left_only\<close> or \<open>both\<close>, and every right row one marked \<open>right_only\<close> or
  \<open>both\<close>. Without duplicates the validation has checked that the keys are unique. With
  duplicates the rank column makes them unique, provided that no key value is missing (a
  row with a missing key value gets no rank) and that the assignment of the ranks brings
  every rank to its own row: that is so when the comparison is on the index, and when the
  index labels of each frame are unique. The last two lemmas are the count of the
  partitions for such a comparison, and for a frame compared with an equal frame.
\<close>

lemma length_filter_key_le_1:
  "distinct (map k xs) \<Longrightarrow> length (filter (\<lambda>x. k x = v) xs) \<le> 1"
proof (induction xs)
  case Nil
  show ?case by simp
next
  case (Cons x xs)
  show ?case
  proof (cases "k x = v")
    case True
    from Cons.prems have "k x \<notin> k ` set xs" by simp
    with True have "\<forall>y \<in> set xs. k y \<noteq> v" by (metis imageI)
    then have "filter (\<lambda>x. k x = v) xs = []" by (simp add: filter_empty_conv)
    with True show ?thesis by simp
  next
    case False
    with Cons show ?thesis by simp
  qed
qed

lemma length_filter_disjoint:
  "(\<And>x. x \<in> set xs \<Longrightarrow> \<not> (P x \<and> Q x)) \<Longrightarrow>
   length (filter P xs) + length (filter Q xs) = length (filter (\<lambda>x. P x \<or> Q x) xs)"
  by (induction xs) auto

lemma sum_length_filter_keys:
  "distinct (map kl L) \<Longrightarrow>
   sum_list (map (\<lambda>l. length (filter (\<lambda>r. kr r = kl l) R)) L)
     = length (filter (\<lambda>r. \<exists>l \<in> set L. kl l = kr r) R)"
proof (induction L)
  case Nil
  show ?case by simp
next
  case (Cons l L)
  from Cons.prems have "kl l \<notin> kl ` set L" by simp
  then have "\<not> (kr r = kl l \<and> (\<exists>l \<in> set L. kl l = kr r))" for r by (metis imageI)
  then have "length (filter (\<lambda>r. kr r = kl l) R) + length (filter (\<lambda>r. \<exists>l \<in> set L. kl l = kr r) R)
      = length (filter (\<lambda>r. kr r = kl l \<or> (\<exists>l \<in> set L. kl l = kr r)) R)"
    by (intro length_filter_disjoint)
  also have "(\<lambda>r. kr r = kl l \<or> (\<exists>l \<in> set L. kl l = kr r)) = (\<lambda>r. \<exists>l' \<in> set (l # L). kl l' = kr r)"
    by auto
  finally show ?case using Cons by simp
qed

lemma join_pairs_left_both:
  "length (filter (\<lambda>p. indicator p = Str ''both'')
     (concat (map (\<lambda>l. case filter (\<lambda>r. kr r = kl l) R of
                         [] \<Rightarrow> [(Some l, None)]
                       | m # ms \<Rightarrow> map (\<lambda>r. (Some l, Some r)) (m # ms)) L)))
   = sum_list (map (\<lambda>l. length (filter (\<lambda>r. kr r = kl l) R)) L)"
  by (induction L) (auto simp: indicator_def o_def split: list.splits)

lemma join_pairs_left_left:
  "length (filter (\<lambda>p. indicator p = Str ''left_only'')
     (concat (map (\<lambda>l. case filter (\<lambda>r. kr r = kl l) R of
                         [] \<Rightarrow> [(Some l, None)]
                       | m # ms \<Rightarrow> map (\<lambda>r. (Some l, Some r)) (m # ms)) L)))
   = length (filter (\<lambda>l. filter (\<lambda>r. kr r = kl l) R = []) L)"
  by (induction L) (auto simp: indicator_def o_def split: list.splits)

lemma join_pairs_left_right:
  "filter (\<lambda>p. indicator p = Str ''right_only'')
     (concat (map (\<lambda>l. case filter (\<lambda>r. kr r = kl l) R of
                         [] \<Rightarrow> [(Some l, None)]
                       | m # ms \<Rightarrow> map (\<lambda>r. (Some l, Some r)) (m # ms)) L)) = []"
  by (induction L) (auto simp: indicator_def o_def split: list.splits)

lemma join_pairs_counts:
  fixes kl :: "'a \<Rightarrow> 'k" and kr :: "'b \<Rightarrow> 'k"
  assumes "distinct (map kl L)" and "distinct (map kr R)"
  shows "length (filter (\<lambda>p. indicator p = Str ''left_only'') (join_pairs kl kr L R))
         + length (filter (\<lambda>p. indicator p = Str ''both'') (join_pairs kl kr L R)) = length L"
    and "length (filter (\<lambda>p. indicator p = Str ''right_only'') (join_pairs kl kr L R))
         + length (filter (\<lambda>p. indicator p = Str ''both'') (join_pairs kl kr L R)) = length R"
proof -
  let ?F = "\<lambda>l. filter (\<lambda>r. kr r = kl l) R"
  let ?tail = "map (\<lambda>r. (None :: 'a option, Some r)) (filter (\<lambda>r. \<not> (\<exists>l \<in> set L. kl l = kr r)) R)"
  have tb: "filter (\<lambda>p. indicator p = Str ''both'') ?tail = []"
    and tl: "filter (\<lambda>p. indicator p = Str ''left_only'') ?tail = []"
    and tr: "filter (\<lambda>p. indicator p = Str ''right_only'') ?tail = ?tail"
    by (simp_all add: filter_map o_def indicator_def)
  have both: "length (filter (\<lambda>p. indicator p = Str ''both'') (join_pairs kl kr L R))
      = sum_list (map (\<lambda>l. length (?F l)) L)"
    unfolding join_pairs_def filter_append tb by (simp add: join_pairs_left_both)
  have left: "length (filter (\<lambda>p. indicator p = Str ''left_only'') (join_pairs kl kr L R))
      = length (filter (\<lambda>l. ?F l = []) L)"
    unfolding join_pairs_def filter_append tl by (simp add: join_pairs_left_left)
  have right: "length (filter (\<lambda>p. indicator p = Str ''right_only'') (join_pairs kl kr L R))
      = length (filter (\<lambda>r. \<not> (\<exists>l \<in> set L. kl l = kr r)) R)"
    unfolding join_pairs_def filter_append tr by (simp add: join_pairs_left_right)
  have one: "length (?F l) = (if ?F l = [] then 0 else 1)" for l
    using length_filter_key_le_1[OF assms(2), of "kl l"] by (cases "?F l") auto
  have "sum_list (map (\<lambda>l. length (?F l)) L) = length (filter (\<lambda>l. ?F l \<noteq> []) L)"
    by (induction L) (simp_all add: one)
  with both left show "length (filter (\<lambda>p. indicator p = Str ''left_only'') (join_pairs kl kr L R))
         + length (filter (\<lambda>p. indicator p = Str ''both'') (join_pairs kl kr L R)) = length L"
    using sum_length_filter_compl[of "\<lambda>l. ?F l = []" L] by simp
  from both right sum_length_filter_keys[OF assms(1), of kr R]
  show "length (filter (\<lambda>p. indicator p = Str ''right_only'') (join_pairs kl kr L R))
         + length (filter (\<lambda>p. indicator p = Str ''both'') (join_pairs kl kr L R)) = length R"
    using sum_length_filter_compl[of "\<lambda>r. \<exists>l \<in> set L. kl l = kr r" R] by simp
qed

lemma duplicated_from_none:
  "filter id (duplicated_from seen xs) = [] \<longleftrightarrow> distinct xs \<and> set xs \<inter> set seen = {}"
  by (induction xs arbitrary: seen) auto

lemma duplicated_none: "0 < length (filter id (duplicated xs)) \<longleftrightarrow> \<not> distinct xs"
  unfolding duplicated_def using duplicated_from_none[of "[]" xs] by simp

lemma drop_duplicates_rows_length:
  "length (drop_duplicates_rows ns xs) \<le> length xs"
proof (induction ns xs rule: drop_duplicates_rows.induct)
  case (1 ns)
  show ?case by simp
next
  case (2 ns x xs)
  let ?f = "filter (\<lambda>y. cells_of ns (snd y) \<noteq> cells_of ns (snd x)) xs"
  from 2 have a: "length (drop_duplicates_rows ns ?f) \<le> length ?f" by simp
  have "length (drop_duplicates_rows ns ?f) \<le> length xs"
    by (rule order_trans[OF a length_filter_le])
  then show ?case by simp
qed

lemma drop_duplicates_rows_same:
  "length (drop_duplicates_rows ns xs) = length xs
     \<longleftrightarrow> distinct (map (\<lambda>x. cells_of ns (snd x)) xs)"
proof (induction ns xs rule: drop_duplicates_rows.induct)
  case (1 ns)
  show ?case by simp
next
  case (2 ns x xs)
  let ?f = "filter (\<lambda>y. cells_of ns (snd y) \<noteq> cells_of ns (snd x)) xs"
  have le: "length (drop_duplicates_rows ns ?f) \<le> length ?f" by (rule drop_duplicates_rows_length)
  have fl: "length ?f \<le> length xs" by (rule length_filter_le)
  show ?case
  proof (cases "?f = xs")
    case True
    then have "\<forall>y \<in> set xs. cells_of ns (snd y) \<noteq> cells_of ns (snd x)"
      by (metis (mono_tags, lifting) filter_id_conv)
    then have "cells_of ns (snd x) \<notin> (\<lambda>x. cells_of ns (snd x)) ` set xs" by force
    with 2 True show ?thesis by simp
  next
    case False
    then have "length ?f \<noteq> length xs" by (metis filter_True length_filter_eq_iff)
    from le_neq_trans[OF fl this] have lt: "length ?f < length xs" .
    from False obtain y where "y \<in> set xs" "cells_of ns (snd y) = cells_of ns (snd x)"
      by (metis (mono_tags, lifting) filter_True)
    then have "cells_of ns (snd x) \<in> (\<lambda>x. cells_of ns (snd x)) ` set xs"
      by (metis (mono_tags, lifting) imageI)
    with le lt show ?thesis by simp
  qed
qed

lemma validate_dataframe_no_dupes:
  assumes "validate_dataframe st jc oi dupes idx a = Inr (st', False, r)"
  shows "distinct (map (merge_key (if oi then OnIndex else On jc)) (rows (st' r)))"
proof -
  from validate_dataframe_Inr[OF assms] have a: "a = DataFrameRef r"
    and st': "st' = st(r := lowered (st r))" by simp_all
  show ?thesis
  proof (cases oi)
    case True
    with assms have "\<not> 0 < length (filter id (duplicated (index (lowered (st r)))))"
      unfolding validate_dataframe_def a
      by (auto simp: rename_lower Let_def split: if_splits)
    then have "distinct (index (lowered (st r)))" unfolding duplicated_none by simp
    then have "distinct (map (\<lambda>x. [fst x]) (rows (lowered (st r))))"
      unfolding index_def by (simp add: distinct_map inj_on_def comp_inj_on)
    with True show ?thesis unfolding st' merge_key_def by simp
  next
    case False
    with assms obtain dd where dd: "drop_duplicates (lowered (st r)) jc = Inr dd"
      and l: "\<not> len dd < len (lowered (st r))"
      unfolding validate_dataframe_def a
      by (auto simp: rename_lower Let_def bind_err_eq_Inr split: if_splits)
    from dd have "rows dd = drop_duplicates_rows jc (rows (lowered (st r)))"
      unfolding drop_duplicates_def by (auto split: if_splits list.splits)
    with l drop_duplicates_rows_length[of jc "rows (lowered (st r))"]
    have "length (drop_duplicates_rows jc (rows (lowered (st r)))) = length (rows (lowered (st r)))"
      unfolding len_def by simp
    then have "distinct (map (\<lambda>x. cells_of jc (snd x)) (rows (lowered (st r))))"
      unfolding drop_duplicates_rows_same .
    with False show ?thesis unfolding st' merge_key_def by simp
  qed
qed

lemma rows_lowered_index [simp]: "index (lowered d) = index d"
  unfolding index_def lowered_def by (simp add: o_def case_prod_unfold)

lemma len_lowered [simp]: "len (lowered d) = len d"
  unfolding len_def lowered_def by simp

lemma init_attributes_rows:
  assumes "init_attributes st a1 a2 jc oi atol rtol n1 n2 = Inr (st0, self)"
  shows "index (st0 (df1 self)) = index (st (df1 self))"
    and "index (st0 (df2 self)) = index (st (df2 self))"
    and "len (st0 (df1 self)) = len (st (df1 self))"
    and "len (st0 (df2 self)) = len (st (df2 self))"
    and "\<not> any_dupes self \<Longrightarrow>
           distinct (map (merge_key (if on_index self then OnIndex else On (join_columns self)))
                      (rows (st0 (df1 self))))"
    and "\<not> any_dupes self \<Longrightarrow>
           distinct (map (merge_key (if on_index self then OnIndex else On (join_columns self)))
                      (rows (st0 (df2 self))))"
    and "st (df1 self) = st (df2 self) \<Longrightarrow> st0 (df1 self) = st0 (df2 self)"
proof -
  from assms obtain j oi' st1 dupes1 r1 dupes2 r2 where
    v1: "validate_dataframe st j oi' False ''df1'' a1 = Inr (st1, dupes1, r1)"
    and v2: "validate_dataframe st1 j oi' dupes1 ''df2'' a2 = Inr (st0, dupes2, r2)"
    and self: "join_columns self = j" "on_index self = oi'" "any_dupes self = dupes2"
      "df1 self = r1" "df2 self = r2"
    unfolding init_attributes_def
    by (auto simp: bind_err_eq_Inr split: if_splits join_arg.splits)
  note w1 = validate_dataframe_Inr[OF v1] and w2 = validate_dataframe_Inr[OF v2]
  from w1 have s1: "st1 = st(r1 := lowered (st r1))" by simp
  from w2 have s0: "st0 = st1(r2 := lowered (st1 r2))" by simp
  show "index (st0 (df1 self)) = index (st (df1 self))"
    "index (st0 (df2 self)) = index (st (df2 self))"
    "len (st0 (df1 self)) = len (st (df1 self))"
    "len (st0 (df2 self)) = len (st (df2 self))"
    unfolding self s0 s1 by simp_all
  show "st (df1 self) = st (df2 self) \<Longrightarrow> st0 (df1 self) = st0 (df2 self)"
    unfolding self s0 s1 by simp
  {
    assume n: "\<not> any_dupes self"
    with self w2 have d2: "dupes2 = False" and d1: "dupes1 = False" by auto
    from validate_dataframe_no_dupes[OF v2[unfolded d2]]
    have k2: "distinct (map (merge_key (if oi' then OnIndex else On j)) (rows (st0 r2)))" .
    from validate_dataframe_no_dupes[OF v1[unfolded d1]]
    have k1: "distinct (map (merge_key (if oi' then OnIndex else On j)) (rows (st1 r1)))" .
    have "distinct (map (merge_key (if oi' then OnIndex else On j)) (rows (st0 r1)))"
    proof (cases "r1 = r2")
      case True
      with k2 show ?thesis by simp
    next
      case False
      then have "st0 r1 = st1 r1" unfolding s0 by simp
      with k1 show ?thesis by simp
    qed
    with k2 show "distinct (map (merge_key (if on_index self then OnIndex else On (join_columns self)))
                      (rows (st0 (df1 self))))"
      "distinct (map (merge_key (if on_index self then OnIndex else On (join_columns self)))
                      (rows (st0 (df2 self))))"
      unfolding self by simp_all
  }
qed

lemma length_cumcount_from [simp]: "length (cumcount_from seen ks) = length ks"
  by (induction ks arbitrary: seen) simp_all

lemma cumcount_from_ge:
  "(k, c) \<in> set (zip ks (cumcount_from seen ks)) \<Longrightarrow> count_list seen k \<le> c"
proof (induction ks arbitrary: seen)
  case Nil
  then show ?case by simp
next
  case (Cons a ks)
  from Cons.prems have "(k = a \<and> c = count_list seen a)
      \<or> (k, c) \<in> set (zip ks (cumcount_from (a # seen) ks))" by auto
  then show ?case
  proof
    assume "k = a \<and> c = count_list seen a"
    then show ?thesis by simp
  next
    assume "(k, c) \<in> set (zip ks (cumcount_from (a # seen) ks))"
    from Cons.IH[OF this] show ?thesis by (simp split: if_splits)
  qed
qed

lemma cumcount_from_distinct: "distinct (zip ks (cumcount_from seen ks))"
proof (induction ks arbitrary: seen)
  case Nil
  show ?case by simp
next
  case (Cons a ks)
  have "(a, count_list seen a) \<notin> set (zip ks (cumcount_from (a # seen) ks))"
  proof
    assume "(a, count_list seen a) \<in> set (zip ks (cumcount_from (a # seen) ks))"
    from cumcount_from_ge[OF this] show False by simp
  qed
  with Cons show ?case by simp
qed

lemma rank_keys_zip:
  "distinct (map (\<lambda>(k, v). k @ [v]) (zip K (map (\<lambda>c. Num (real c)) (cumcount K))))"
proof -
  have z: "zip K (map (\<lambda>c. Num (real c)) (cumcount K))
      = map (\<lambda>(k, c). (k, Num (real c))) (zip K (cumcount K))"
    by (simp add: zip_map2)
  have "distinct (map (\<lambda>(k, c). k @ [Num (real c)]) (zip K (cumcount K)))"
    unfolding cumcount_def
    by (auto simp: distinct_map cumcount_from_distinct inj_on_def)
  then show ?thesis unfolding z by (simp add: o_def case_prod_unfold)
qed

lemma group_numbers_complete:
  "length K = length C \<Longrightarrow> \<forall>k \<in> set K. Null \<notin> set k \<Longrightarrow>
   map group_number (zip K C) = map (\<lambda>c. Num (real c)) C"
  by (induction K C rule: list_induct2) (simp_all add: group_number_def)

lemma same_labels_same_rows:
  assumes m: "mset S = mset R" and l: "map fst S = map fst R" and d: "distinct (map fst R)"
  shows "S = R"
proof (rule nth_equalityI)
  from m show len: "length S = length R" by (rule mset_eq_length)
  fix i
  assume i: "i < length S"
  from m have "set S = set R" by (rule mset_eq_setD)
  with i have a: "S ! i \<in> set R" by (metis nth_mem)
  from i len have b: "R ! i \<in> set R" by simp
  from l i len have c: "fst (S ! i) = fst (R ! i)" by (metis nth_map)
  from d have "inj_on fst (set R)" by (simp add: distinct_map)
  from inj_onD[OF this c a b] show "S ! i = R ! i" .
qed

lemma lookup_zip_self:
  assumes "distinct ks" and "length ks = length vs"
  shows "map (\<lambda>k. case map_of (zip ks vs) k of None \<Rightarrow> d | Some v \<Rightarrow> v) ks = vs"
proof (rule nth_equalityI)
  show "length (map (\<lambda>k. case map_of (zip ks vs) k of None \<Rightarrow> d | Some v \<Rightarrow> v) ks) = length vs"
    using assms by simp
  fix i
  assume "i < length (map (\<lambda>k. case map_of (zip ks vs) k of None \<Rightarrow> d | Some v \<Rightarrow> v) ks)"
  then have i: "i < length ks" by simp
  with assms have "map_of (zip ks vs) (ks ! i) = Some (vs ! i)"
    by (intro map_of_zip_nth) simp_all
  with i show "map (\<lambda>k. case map_of (zip ks vs) k of None \<Rightarrow> d | Some v \<Rightarrow> v) ks ! i = vs ! i"
    by simp
qed

lemma cells_of_update_fresh:
  "oc \<notin> set tj \<Longrightarrow> cells_of (tj @ [oc]) (AList.update oc v r) = cells_of tj r @ [v]"
  unfolding cells_of_def by (auto simp: cell_of_update)

lemma rank_keys_distinct:
  assumes sv: "sort_values d (columns d) = Inr sd"
    and gc: "groupby_cumcount sd tj = Inr s"
    and sc: "set_column_series d oc t s = Inr d'"
    and oc: "oc \<notin> set tj"
    and H: "distinct (index d) \<or> (\<forall>x \<in> set (rows d). cells_of tj (snd x) = [fst x])"
    and nn: "\<forall>x \<in> set (rows d). Null \<notin> set (cells_of tj (snd x))"
  shows "distinct (map (\<lambda>x. cells_of (tj @ [oc]) (snd x)) (rows d'))"
    and "index d' = index d" and "len d' = len d"
proof -
  define R where "R = rows d"
  define S where "S = rows sd"
  define K where "K = map (\<lambda>x. cells_of tj (snd x)) S"
  define V where "V = map (\<lambda>c. Num (real c)) (cumcount K)"
  define look where "look = (\<lambda>l. case map_of s l of None \<Rightarrow> Null | Some v \<Rightarrow> v)"
  from sort_values_Inr[OF sv] have m: "mset S = mset R" unfolding S_def R_def by simp
  then have len: "length S = length R" by (rule mset_eq_length)
  have lV: "length V = length S" unfolding V_def K_def cumcount_def by simp
  from m have "set S = set R" by (rule mset_eq_setD)
  with nn have "\<forall>k \<in> set K. Null \<notin> set k" unfolding K_def R_def by auto
  then have gn: "map group_number (zip K (cumcount K)) = V"
    unfolding V_def by (intro group_numbers_complete) (simp_all add: cumcount_def)
  from gc have "s = zip (map fst S) (map group_number (zip K (cumcount K)))"
    unfolding groupby_cumcount_def K_def S_def index_def
    by (auto simp: Let_def case_prod_unfold split: list.splits)
  then have s: "s = zip (map fst S) V" unfolding gn .
  have fs: "map fst s = map fst S" and ss: "map snd s = V" unfolding s using lV by simp_all
  have dz: "distinct (map (\<lambda>(k, v). k @ [v]) (zip K V))" unfolding V_def by (rule rank_keys_zip)
  have upd: "map (\<lambda>x. cells_of (tj @ [oc]) (snd x))
               (map (\<lambda>((l, r), v). (l, AList.update oc v r)) (zip R W))
             = map (\<lambda>(k, v). k @ [v]) (zip (map (\<lambda>x. cells_of tj (snd x)) R) W)" for W
    by (simp add: zip_map1 o_def case_prod_unfold cells_of_update_fresh[OF oc])
  show "distinct (map (\<lambda>x. cells_of (tj @ [oc]) (snd x)) (rows d'))"
    and "index d' = index d" and "len d' = len d"
  proof -
    consider (pos) "map fst S = map fst R \<or> R = []"
      | (lab) "\<not> (map fst S = map fst R \<or> R = [])" "distinct (map fst S)"
      using sc unfolding set_column_series_def fs index_def R_def by (auto split: if_splits)
    then have "distinct (map (\<lambda>x. cells_of (tj @ [oc]) (snd x)) (rows d'))
        \<and> map fst (rows d') = map fst R \<and> length (rows d') = length R"
    proof cases
      case pos
      with sc have d': "rows d' = map (\<lambda>((l, r), v). (l, AList.update oc v r)) (zip R V)"
        unfolding set_column_series_def fs ss index_def R_def set_column_def by auto
      have KR: "map (\<lambda>x. cells_of tj (snd x)) R = K"
      proof (cases "R = []")
        case True
        with len show ?thesis unfolding K_def by simp
      next
        case False
        with pos have l: "map fst S = map fst R" by simp
        from H show ?thesis
        proof
          assume "distinct (index d)"
          then have "distinct (map fst R)" unfolding index_def R_def .
          from same_labels_same_rows[OF m l this] show ?thesis unfolding K_def by simp
        next
          assume h: "\<forall>x \<in> set (rows d). cells_of tj (snd x) = [fst x]"
          from m have "set S = set R" by (rule mset_eq_setD)
          with h have "map (\<lambda>x. cells_of tj (snd x)) S = map (\<lambda>x. [fst x]) S"
            unfolding R_def by simp
          also have "\<dots> = map (\<lambda>l. [l]) (map fst S)" by (simp add: o_def)
          also have "\<dots> = map (\<lambda>l. [l]) (map fst R)" unfolding l ..
          also have "\<dots> = map (\<lambda>x. [fst x]) R" by (simp add: o_def)
          also have "\<dots> = map (\<lambda>x. cells_of tj (snd x)) R" using h unfolding R_def by simp
          finally show ?thesis unfolding K_def by simp
        qed
      qed
      have "map fst (rows d') = map fst R" unfolding d' using lV len
        by (intro nth_equalityI) (simp_all add: case_prod_unfold)
      moreover have "length (rows d') = length R" unfolding d' using lV len by simp
      ultimately show ?thesis unfolding d' upd KR using dz by simp
    next
      case lab
      with sc have d': "rows d' = map (\<lambda>((l, r), v). (l, AList.update oc v r)) (zip R (map look (map fst R)))"
        unfolding set_column_series_def fs ss index_def R_def set_column_def look_def by auto
      have lk: "map look (map fst S) = V"
        unfolding look_def s using lab(2) lV by (intro lookup_zip_self) simp_all
      define g where "g = (\<lambda>x :: cell \<times> row. cells_of tj (snd x) @ [look (fst x)])"
      have gR: "map (\<lambda>(k, v). k @ [v]) (zip (map (\<lambda>x. cells_of tj (snd x)) R) (map look (map fst R)))
          = map g R"
        unfolding g_def by (simp add: zip_map_map zip_same_conv_map o_def)
      have "map g S = map (\<lambda>(k, v). k @ [v]) (zip K (map look (map fst S)))"
        unfolding g_def K_def by (simp add: zip_map_map zip_same_conv_map o_def)
      with dz lk have "distinct (map g S)" by simp
      moreover from m have "mset (map g S) = mset (map g R)" by simp
      ultimately have "distinct (map g R)" by (metis mset_eq_imp_distinct_iff)
      moreover have "map fst (rows d') = map fst R" unfolding d'
        by (intro nth_equalityI) (simp_all add: case_prod_unfold)
      moreover have "length (rows d') = length R" unfolding d' by simp
      ultimately show ?thesis unfolding d' upd gR by simp
    qed
    then show "distinct (map (\<lambda>x. cells_of (tj @ [oc]) (snd x)) (rows d'))"
      and "index d' = index d" and "len d' = len d"
      unfolding index_def len_def R_def by simp_all
  qed
qed

lemma cell_of_merged_row_merge:
  "cell_of (merged_row keys lc rc p) ''_merge'' = indicator p"
proof (cases p)
  case (Pair a b)
  then show ?thesis
    by (cases a; cases b) (auto simp: cell_of_def indicator_def)
qed

lemma length_filter_snd_zip:
  "length xs = length ys \<Longrightarrow> length (filter (\<lambda>x. P (snd x)) (zip xs ys)) = length (filter P ys)"
  by (induction xs ys rule: list_induct2) simp_all

lemma length_range_index [simp]: "length (range_index n) = n"
  unfolding range_index_def by simp

lemma join_pairs_index_key:
  "join_pairs (\<lambda>x. [fst x]) (\<lambda>x. [fst x]) L R = join_pairs fst fst L R"
  unfolding join_pairs_def by simp

lemma merge_outer_pairs:
  assumes mo: "merge_outer left right params = Inr oj"
  shows "marked m oj = length (filter (\<lambda>p. indicator p = Str m)
           (join_pairs (merge_key params) (merge_key params) (rows left) (rows right)))"
proof (cases params)
  case (On keys)
  define ps where "ps = join_pairs (\<lambda>x. cells_of keys (snd x)) (\<lambda>x. cells_of keys (snd x))
                         (rows left) (rows right)"
  from mo have r: "rows oj = zip (range_index (length ps))
                               (map (merged_row keys (columns left) (columns right)) ps)"
    unfolding merge_outer_def On ps_def
    by (auto simp: Let_def split: if_splits list.splits)
  have "marked m oj = length (filter (\<lambda>p. indicator p = Str m) ps)"
    unfolding marked_def r
    by (simp add: length_filter_snd_zip[where P = "\<lambda>r. cell_of r ''_merge'' = Str m"]
          filter_map o_def cell_of_merged_row_merge)
  moreover have "merge_key params = (\<lambda>x. cells_of keys (snd x))"
    unfolding On merge_key_def by simp
  ultimately show ?thesis unfolding ps_def by simp
next
  case OnIndex
  define ps where "ps = join_pairs fst fst (rows left) (rows right)"
  from mo have r: "rows oj = map (\<lambda>p. (merged_label p,
                                 merged_row [] (columns left) (columns right) p)) ps"
    unfolding merge_outer_def OnIndex ps_def
    by (auto simp: Let_def split: if_splits)
  have "marked m oj = length (filter (\<lambda>p. indicator p = Str m) ps)"
    unfolding marked_def r by (simp add: filter_map o_def cell_of_merged_row_merge)
  moreover have "merge_key params = (\<lambda>x. [fst x])"
    unfolding OnIndex merge_key_def by simp
  ultimately show ?thesis unfolding ps_def by (simp add: join_pairs_index_key)
qed

lemma merge_outer_marked:
  assumes mo: "merge_outer left right params = Inr oj"
    and dl: "distinct (map (merge_key params) (rows left))"
    and dr: "distinct (map (merge_key params) (rows right))"
  shows "marked ''left_only'' oj + marked ''both'' oj = len left"
    and "marked ''right_only'' oj + marked ''both'' oj = len right"
  unfolding merge_outer_pairs[OF mo] len_def
  by (rule join_pairs_counts[OF dl dr])+

lemma filter_key_self:
  "distinct (map k L) \<Longrightarrow> l \<in> set L \<Longrightarrow> filter (\<lambda>r. k r = k l) L = [l]"
proof (induction L)
  case Nil
  then show ?case by simp
next
  case (Cons a L)
  from Cons.prems(1) have n: "k a \<notin> k ` set L" and d: "distinct (map k L)" by simp_all
  show ?case
  proof (cases "l = a")
    case True
    from n have "\<forall>r \<in> set L. k r \<noteq> k a" by (metis imageI)
    then have "filter (\<lambda>r. k r = k a) L = []" by (simp add: filter_empty_conv)
    with True show ?thesis by simp
  next
    case False
    with Cons.prems(2) have l: "l \<in> set L" by simp
    with n have "k a \<noteq> k l" by (metis imageI)
    with Cons.IH[OF d l] show ?thesis by simp
  qed
qed

lemma join_pairs_self:
  assumes "distinct (map k L)"
  shows "join_pairs k k L L = map (\<lambda>l. (Some l, Some l)) L"
proof -
  have a: "map (\<lambda>l. case filter (\<lambda>r. k r = k l) L of
                         [] \<Rightarrow> [(Some l, None)]
                       | m # ms \<Rightarrow> map (\<lambda>r. (Some l, Some r)) (m # ms)) L
      = map (\<lambda>l. [(Some l, Some l)]) L"
    by (rule map_cong[OF refl]) (simp add: filter_key_self[OF assms])
  have b: "filter (\<lambda>r. \<not> (\<exists>l \<in> set L. k l = k r)) L = []"
    by (auto simp: filter_empty_conv)
  show ?thesis unfolding join_pairs_def a b by simp
qed

lemma merge_outer_marked_same:
  assumes mo: "merge_outer d d params = Inr oj"
    and dl: "distinct (map (merge_key params) (rows d))"
  shows "marked ''left_only'' oj = 0" and "marked ''right_only'' oj = 0"
    and "marked ''both'' oj = len d"
  unfolding merge_outer_pairs[OF mo] join_pairs_self[OF dl] len_def
  by (simp_all add: filter_map o_def indicator_def)

lemma drop_column_marked:
  assumes "drop_column d n = Inr d'"
  shows "len d' = len d" and "n \<noteq> ''_merge'' \<Longrightarrow> marked m d' = marked m d"
proof -
  from assms have r: "rows d' = map (\<lambda>(l, r). (l, AList.delete n r)) (rows d)"
    unfolding drop_column_Inr by simp
  show "len d' = len d" unfolding len_def r by simp
  show "n \<noteq> ''_merge'' \<Longrightarrow> marked m d' = marked m d"
    unfolding marked_def r by (simp add: filter_map o_def case_prod_unfold cell_of_delete)
qed

lemma set_index_from_marked:
  assumes "set_index_from d n = Inr d'"
  shows "marked m d' = marked m d"
proof -
  from assms have r: "rows d' = map (\<lambda>(l, r). (cell_of r n, r)) (rows d)"
    unfolding set_index_from_def by (auto split: if_splits)
  show ?thesis unfolding marked_def r by (simp add: filter_map o_def case_prod_unfold)
qed

lemma drop_temp_columns_marked:
  assumes dt: "drop_temp_columns st self oj ix oc = Inr (st', oj')"
    and oc: "oc \<noteq> ''_merge''" and ic: "\<forall>t \<in> set (temp_list ix). t \<noteq> ''_merge''"
  shows "marked m oj' = marked m oj"
    and "len (st' (df1 self)) = len (st (df1 self))"
    and "len (st' (df2 self)) = len (st (df2 self))"
proof -
  from drop_temp_columns_store[OF dt] have neq: "df1 self \<noteq> df2 self" by simp
  from dt obtain st2 oj2 d1 d2 where
    first: "(case ix of
          None \<Rightarrow> Inr (st, oj)
        | Some ic \<Rightarrow>
            bind_err (set_index_from oj ic) (\<lambda>oj1.
            bind_err (drop_column oj1 ic) (\<lambda>oj2.
            bind_err (drop_column (st (df1 self)) ic) (\<lambda>d1.
            let st1 = st(df1 self := d1) in
            bind_err (drop_column (st1 (df2 self)) ic) (\<lambda>d2.
            Inr (st1(df2 self := d2), oj2)))))) = Inr (st2, oj2)"
    and o3: "drop_column oj2 oc = Inr oj'"
    and e1: "drop_column (st2 (df1 self)) oc = Inr d1"
    and e2: "drop_column ((st2(df1 self := d1)) (df2 self)) oc = Inr d2"
    and st': "st' = (st2(df1 self := d1))(df2 self := d2)"
    unfolding drop_temp_columns_def by (auto simp: bind_err_eq_Inr Let_def)
  have mid: "marked m oj2 = marked m oj \<and> len (st2 (df1 self)) = len (st (df1 self))
      \<and> len (st2 (df2 self)) = len (st (df2 self))"
  proof (cases ix)
    case None
    with first show ?thesis by simp
  next
    case (Some c)
    with ic have c: "c \<noteq> ''_merge''" unfolding temp_list_def by simp
    from first obtain oj1 b1 b2 where
      f1: "set_index_from oj c = Inr oj1" and f2: "drop_column oj1 c = Inr oj2"
      and f3: "drop_column (st (df1 self)) c = Inr b1"
      and f4: "drop_column ((st(df1 self := b1)) (df2 self)) c = Inr b2"
      and s2: "st2 = (st(df1 self := b1))(df2 self := b2)"
      unfolding Some by (auto simp: bind_err_eq_Inr Let_def)
    from f4 neq have f4': "drop_column (st (df2 self)) c = Inr b2" by simp
    from set_index_from_marked[OF f1] drop_column_marked(2)[OF f2 c]
      drop_column_marked(1)[OF f3] drop_column_marked(1)[OF f4'] neq
    show ?thesis unfolding s2 by simp
  qed
  from e2 neq have e2': "drop_column (st2 (df2 self)) oc = Inr d2" by simp
  from drop_column_marked(2)[OF o3 oc] mid show "marked m oj' = marked m oj" by simp
  from drop_column_marked(1)[OF e1] mid neq show "len (st' (df1 self)) = len (st (df1 self))"
    unfolding st' by simp
  from drop_column_marked(1)[OF e2'] mid show "len (st' (df2 self)) = len (st (df2 self))"
    unfolding st' by simp
qed

lemma attach_temp_columns_distinct:
  assumes at: "attach_temp_columns st self = Inr (st', ix, oc, params)"
    and neq: "df1 self \<noteq> df2 self"
    and H: "on_index self \<or> (distinct (index (st (df1 self))) \<and> distinct (index (st (df2 self))))"
    and nn: "keys_complete (join_columns self) (on_index self) (st (df1 self))"
      "keys_complete (join_columns self) (on_index self) (st (df2 self))"
  shows "distinct (map (merge_key params) (rows (st' (df1 self))))"
    and "distinct (map (merge_key params) (rows (st' (df2 self))))"
    and "len (st' (df1 self)) = len (st (df1 self))"
    and "len (st' (df2 self)) = len (st (df2 self))"
    and "st (df1 self) = st (df2 self) \<Longrightarrow> st' (df1 self) = st' (df2 self)"
proof -
  let ?r1 = "df1 self" and ?r2 = "df2 self"
  define c where "c = temp_column_name (st ?r1) (st ?r2)"
  define s2 where "s2 = (if on_index self then
       (st(?r1 := set_column (st ?r1) c ''object'' (index (st ?r1))))
         (?r2 := set_column (st ?r2) c ''object'' (index (st ?r2)))
       else st)"
  define tj where "tj = (if on_index self then [c] else join_columns self)"
  from at neq obtain sorted1 order1 d1 sorted2 order2 d2 where
    s1: "sort_values (s2 ?r1) (columns (s2 ?r1)) = Inr sorted1"
    and g1: "groupby_cumcount sorted1 tj = Inr order1"
    and c1: "set_column_series (s2 ?r1) oc ''int64'' order1 = Inr d1"
    and s2: "sort_values (s2 ?r2) (columns (s2 ?r2)) = Inr sorted2"
    and g2: "groupby_cumcount sorted2 tj = Inr order2"
    and c2: "set_column_series (s2 ?r2) oc ''int64'' order2 = Inr d2"
    and st': "st' ?r1 = d1" "st' ?r2 = d2"
    and oc: "oc = temp_column_name (s2 ?r1) (s2 ?r2)"
    and params: "params = On (tj @ [oc])"
    unfolding attach_temp_columns_def s2_def tj_def c_def
    by (auto simp: bind_err_eq_Inr Let_def split: if_splits)
  from groupby_cumcount_Inr[OF g1] sort_values_Inr[OF s1]
  have tj: "set tj \<subseteq> set (columns (s2 ?r1))" by simp
  have "oc \<notin> set (columns (s2 ?r1))"
    unfolding oc using temp_column_name_fresh[of "s2 ?r1" "s2 ?r2"] by simp
  with tj have fresh: "oc \<notin> set tj" by auto
  have pre: "(distinct (index (s2 r)) \<or> (\<forall>x \<in> set (rows (s2 r)). cells_of tj (snd x) = [fst x]))
      \<and> len (s2 r) = len (st r)
      \<and> (\<forall>x \<in> set (rows (s2 r)). Null \<notin> set (cells_of tj (snd x)))"
    if "r = ?r1 \<or> r = ?r2" for r
  proof (cases "on_index self")
    case False
    then have "s2 = st" "tj = join_columns self" unfolding s2_def tj_def by simp_all
    with H False that nn show ?thesis unfolding keys_complete_def by auto
  next
    case True
    with neq that have "s2 r = set_column (st r) c ''object'' (index (st r))"
      unfolding s2_def by auto
    then have r: "rows (s2 r) = map (\<lambda>(l, r). (l, AList.update c l r)) (rows (st r))"
      by (simp add: set_column_index_rows)
    from True have t: "tj = [c]" unfolding tj_def by simp
    have k: "\<forall>x \<in> set (rows (s2 r)). cells_of tj (snd x) = [fst x]"
      unfolding r t cells_of_def by (auto simp: cell_of_update)
    from nn True that have "Null \<notin> set (index (st r))" unfolding keys_complete_def by auto
    then have "\<forall>x \<in> set (rows (s2 r)). fst x \<noteq> Null"
      unfolding r index_def by (auto simp: image_iff)
    with k have "\<forall>x \<in> set (rows (s2 r)). Null \<notin> set (cells_of tj (snd x))" by auto
    moreover have "len (s2 r) = len (st r)" unfolding len_def r by simp
    ultimately show ?thesis using k by simp
  qed
  from pre[of ?r1] have p1: "distinct (index (s2 ?r1))
      \<or> (\<forall>x \<in> set (rows (s2 ?r1)). cells_of tj (snd x) = [fst x])"
    and l1: "len (s2 ?r1) = len (st ?r1)"
    and n1: "\<forall>x \<in> set (rows (s2 ?r1)). Null \<notin> set (cells_of tj (snd x))" by simp_all
  from pre[of ?r2] have p2: "distinct (index (s2 ?r2))
      \<or> (\<forall>x \<in> set (rows (s2 ?r2)). cells_of tj (snd x) = [fst x])"
    and l2: "len (s2 ?r2) = len (st ?r2)"
    and n2: "\<forall>x \<in> set (rows (s2 ?r2)). Null \<notin> set (cells_of tj (snd x))" by simp_all
  note k1 = rank_keys_distinct[OF s1 g1 c1 fresh p1 n1]
  note k2 = rank_keys_distinct[OF s2 g2 c2 fresh p2 n2]
  from k1(1) show "distinct (map (merge_key params) (rows (st' ?r1)))"
    unfolding st' params merge_key_def by simp
  from k2(1) show "distinct (map (merge_key params) (rows (st' ?r2)))"
    unfolding st' params merge_key_def by simp
  from k1(3) l1 show "len (st' ?r1) = len (st ?r1)" unfolding st' by simp
  from k2(3) l2 show "len (st' ?r2) = len (st ?r2)" unfolding st' by simp
  show "st' ?r1 = st' ?r2" if "st ?r1 = st ?r2"
  proof -
    from that have e: "s2 ?r1 = s2 ?r2" unfolding s2_def using neq by simp
    from s1 s2 have "sorted1 = sorted2" unfolding e by simp
    with g1 g2 have "order1 = order2" by simp
    with c1 c2 show ?thesis unfolding e st' by simp
  qed
qed

lemma len_filter_rows_marked:
  "len (filter_rows (\<lambda>r. cell_of r ''_merge'' = Str m) d) = marked m d"
  unfolding len_def filter_rows_def marked_def by (simp add: case_prod_unfold)

lemma unq_len:
  assumes "select_columns (filter_rows (\<lambda>r. cell_of r ''_merge'' = Str m) oj) cs = Inr u"
    and "rename_columns u new = Inr unq"
  shows "len unq = marked m oj"
  using select_columns_len[OF assms(1)] rename_columns_Inr[OF assms(2)]
    len_filter_rows_marked[of m oj]
  unfolding len_def by simp

lemma dataframe_merge_counts:
  assumes "dataframe_merge st self = Inr (st', self')"
  obtains (plain) oj where "\<not> any_dupes self" "st' = st"
      "merge_outer (st (df1 self)) (st (df2 self))
         (if on_index self then OnIndex else On (join_columns self)) = Inr oj"
      "map_option len (df1_unq_rows self') = Some (marked ''left_only'' oj)"
      "map_option len (df2_unq_rows self') = Some (marked ''right_only'' oj)"
      "map_option len (intersect_rows self') = Some (marked ''both'' oj)"
    | (dupes) st1 ix oc params oj oj' where "any_dupes self"
      "attach_temp_columns st self = Inr (st1, ix, oc, params)"
      "merge_outer (st1 (df1 self)) (st1 (df2 self)) params = Inr oj"
      "drop_temp_columns st1 self oj ix oc = Inr (st', oj')"
      "map_option len (df1_unq_rows self') = Some (marked ''left_only'' oj')"
      "map_option len (df2_unq_rows self') = Some (marked ''right_only'' oj')"
      "map_option len (intersect_rows self') = Some (marked ''both'' oj')"
proof (cases "any_dupes self")
  case False
  with assms show ?thesis
    unfolding dataframe_merge_def
    by (cases "on_index self")
       (auto simp: bind_err_eq_Inr len_filter_rows_marked unq_len intro!: plain)
next
  case True
  with assms show ?thesis
    unfolding dataframe_merge_def
    by (auto simp: bind_err_eq_Inr len_filter_rows_marked unq_len intro!: dupes)
qed

lemma partition_counts:
  assumes i: "init st a1 a2 jc oi atol rtol n1 n2 = Inr (st', c)"
    and H: "\<not> any_dupes c
              \<or> ((on_index c \<or> (distinct (index (st (df1 c))) \<and> distinct (index (st (df2 c)))))
                  \<and> keys_complete (join_columns c) (on_index c) (st' (df1 c))
                  \<and> keys_complete (join_columns c) (on_index c) (st' (df2 c)))"
  shows "\<exists>u1 u2 ir. df1_unq_rows c = Some u1 \<and> df2_unq_rows c = Some u2
     \<and> intersect_rows c = Some ir
     \<and> len (st (df1 c)) = len u1 + len ir \<and> len (st (df2 c)) = len u2 + len ir
     \<and> len (st' (df1 c)) = len (st (df1 c)) \<and> len (st' (df2 c)) = len (st (df2 c))"
proof -
  from i obtain st0 self where
    ia: "init_attributes st a1 a2 jc oi atol rtol n1 n2 = Inr (st0, self)"
    and cmp: "compare st0 self = Inr (st', c)"
    unfolding init_def by (auto simp: bind_err_eq_Inr)
  from init_attributes_Inr[OF ia] have cs: "column_stats self = []" by simp
  from compare_Inr[OF cmp cs] obtain u1 u2 ir stats where
    dm: "dataframe_merge st0 self = Inr (st', self\<lparr>df1_unq_rows := Some u1,
           df2_unq_rows := Some u2, intersect_rows := Some ir\<rparr>)"
    and c: "c = self\<lparr>df1_unq_rows := Some u1, df2_unq_rows := Some u2,
              intersect_rows := Some (add_matches (rel_tol self) (abs_tol self)
                                        (compared_columns st' self) ir),
              column_stats := stats\<rparr>"
    by blast
  have f: "df1 c = df1 self" "df2 c = df2 self" "on_index c = on_index self"
    "any_dupes c = any_dupes self" "df1_unq_rows c = Some u1" "df2_unq_rows c = Some u2"
    "intersect_rows c = Some (add_matches (rel_tol self) (abs_tol self)
                                (compared_columns st' self) ir)"
    "join_columns c = join_columns self"
    unfolding c by simp_all
  note r = init_attributes_rows[OF ia]
  have fr: "st' (df1 self) = st0 (df1 self)" "st' (df2 self) = st0 (df2 self)"
    using completed_frames(1,2)[OF i] init_attributes_frames(1,2)[OF ia] unfolding f by simp_all
  from dm have "len (st0 (df1 self)) = len u1 + len ir \<and> len (st0 (df2 self)) = len u2 + len ir
      \<and> len (st' (df1 self)) = len (st0 (df1 self)) \<and> len (st' (df2 self)) = len (st0 (df2 self))"
  proof (cases rule: dataframe_merge_counts)
    case (plain oj)
    from merge_outer_marked[OF plain(3) r(5)[OF plain(1)] r(6)[OF plain(1)]] plain(2,4,5,6)
    show ?thesis by simp
  next
    case (dupes st1 ix oc params oj oj')
    from drop_temp_columns_store[OF dupes(4)] have neq: "df1 self \<noteq> df2 self" by simp
    from H dupes(1) have H': "on_index self
        \<or> (distinct (index (st0 (df1 self))) \<and> distinct (index (st0 (df2 self))))"
      and nn: "keys_complete (join_columns self) (on_index self) (st0 (df1 self))"
        "keys_complete (join_columns self) (on_index self) (st0 (df2 self))"
      unfolding f r(1,2) fr by simp_all
    note a = attach_temp_columns_distinct[OF dupes(2) neq H' nn]
    note m = merge_outer_marked[OF dupes(3) a(1) a(2)]
    from attach_temp_columns_shape[OF dupes(2)]
    have sh: "oc \<noteq> ''_merge''" "\<forall>t \<in> set (temp_list ix). t \<noteq> ''_merge''" by simp_all
    note d = drop_temp_columns_marked[OF dupes(4) sh]
    from m a(3,4) d dupes(5,6,7) show ?thesis by simp
  qed
  with r(3,4) show ?thesis unfolding f by (simp add: len_add_matches)
qed

lemma self_comparison_counts:
  assumes i: "init st a1 a2 jc oi atol rtol n1 n2 = Inr (st', c)"
    and same: "st (df1 c) = st (df2 c)"
    and H: "\<not> any_dupes c
              \<or> ((on_index c \<or> distinct (index (st (df1 c))))
                  \<and> keys_complete (join_columns c) (on_index c) (st' (df1 c)))"
  shows "\<exists>u1 u2 ir. df1_unq_rows c = Some u1 \<and> df2_unq_rows c = Some u2
     \<and> intersect_rows c = Some ir
     \<and> len u1 = 0 \<and> len u2 = 0 \<and> len ir = len (st (df1 c))"
proof -
  from i obtain st0 self where
    ia: "init_attributes st a1 a2 jc oi atol rtol n1 n2 = Inr (st0, self)"
    and cmp: "compare st0 self = Inr (st', c)"
    unfolding init_def by (auto simp: bind_err_eq_Inr)
  from init_attributes_Inr[OF ia] have cs: "column_stats self = []" by simp
  from compare_Inr[OF cmp cs] obtain u1 u2 ir stats where
    dm: "dataframe_merge st0 self = Inr (st', self\<lparr>df1_unq_rows := Some u1,
           df2_unq_rows := Some u2, intersect_rows := Some ir\<rparr>)"
    and c: "c = self\<lparr>df1_unq_rows := Some u1, df2_unq_rows := Some u2,
              intersect_rows := Some (add_matches (rel_tol self) (abs_tol self)
                                        (compared_columns st' self) ir),
              column_stats := stats\<rparr>"
    by blast
  have f: "df1 c = df1 self" "df2 c = df2 self" "on_index c = on_index self"
    "any_dupes c = any_dupes self" "df1_unq_rows c = Some u1" "df2_unq_rows c = Some u2"
    "intersect_rows c = Some (add_matches (rel_tol self) (abs_tol self)
                                (compared_columns st' self) ir)"
    "join_columns c = join_columns self"
    unfolding c by simp_all
  note r = init_attributes_rows[OF ia]
  have fr: "st' (df1 self) = st0 (df1 self)" "st' (df2 self) = st0 (df2 self)"
    using completed_frames(1,2)[OF i] init_attributes_frames(1,2)[OF ia] unfolding f by simp_all
  from same have same0: "st0 (df1 self) = st0 (df2 self)" unfolding f by (rule r(7))
  from dm have "len u1 = 0 \<and> len u2 = 0 \<and> len ir = len (st0 (df1 self))"
  proof (cases rule: dataframe_merge_counts)
    case (plain oj)
    from plain(3) have mo: "merge_outer (st0 (df1 self)) (st0 (df1 self))
         (if on_index self then OnIndex else On (join_columns self)) = Inr oj"
      unfolding same0 by simp
    from merge_outer_marked_same[OF mo r(5)[OF plain(1)]] plain(4,5,6)
    show ?thesis by simp
  next
    case (dupes st1 ix oc params oj oj')
    from drop_temp_columns_store[OF dupes(4)] have neq: "df1 self \<noteq> df2 self" by simp
    from H dupes(1) same have H': "on_index self
        \<or> (distinct (index (st0 (df1 self))) \<and> distinct (index (st0 (df2 self))))"
      and nn: "keys_complete (join_columns self) (on_index self) (st0 (df1 self))"
      unfolding f r(1,2) fr by auto
    from nn same0 have nn2: "keys_complete (join_columns self) (on_index self) (st0 (df2 self))"
      by simp
    note a = attach_temp_columns_distinct[OF dupes(2) neq H' nn nn2]
    from same0 have same1: "st1 (df1 self) = st1 (df2 self)" by (rule a(5))
    from dupes(3) have mo: "merge_outer (st1 (df1 self)) (st1 (df1 self)) params = Inr oj"
      unfolding same1 by simp
    note m = merge_outer_marked_same[OF mo a(1)]
    from attach_temp_columns_shape[OF dupes(2)]
    have sh: "oc \<noteq> ''_merge''" "\<forall>t \<in> set (temp_list ix). t \<noteq> ''_merge''" by simp_all
    note d = drop_temp_columns_marked[OF dupes(4) sh]
    from m a(3) d dupes(5,6,7) show ?thesis by simp
  qed
  with r(3) show ?thesis unfolding f by (simp add: len_add_matches)
qed

lemma equal_copies_match:
  "\<not> isl copies_scenario \<and>
   map_option len (df1_unq_rows (snd (projr copies_scenario))) = Some 0 \<and>
   map_option len (df2_unq_rows (snd (projr copies_scenario))) = Some 0 \<and>
   map_option len (intersect_rows (snd (projr copies_scenario))) = Some 2 \<and>
   matches (fst (projr copies_scenario)) (snd (projr copies_scenario)) False = Inr True"
  unfolding copies_scenario_def by code_simp

subsection \<open>The entries of \<open>column_stats\<close>\<close>

lemma length_filter_Bool_True:
  "length (filter (\<lambda>c. c = Bool True) (map (\<lambda>x. Bool (P x)) xs)) = length (filter P xs)"
  by (induction xs) simp_all

lemma sum_true_match:
  "sum_true (map (\<lambda>(l, r). cell_of r (c @ ''_match'')) (rows (add_match_frame rtol atol c d)))
     = int (length (filter (\<lambda>x. value_equal rtol atol (cell_of (snd x) (c @ ''_df1''))
                                                    (cell_of (snd x) (c @ ''_df2''))) (rows d)))"
proof -
  have "map (\<lambda>(l, r). cell_of r (c @ ''_match'')) (rows (add_match_frame rtol atol c d))
      = map (\<lambda>x. Bool (value_equal rtol atol (cell_of (snd x) (c @ ''_df1''))
                                              (cell_of (snd x) (c @ ''_df2'')))) (rows d)"
    unfolding rows_add_match_frame
    by (simp add: o_def case_prod_unfold cell_of_add_match_same)
  then show ?thesis unfolding sum_true_def by (simp only: length_filter_Bool_True)
qed

lemma entry_ok_add_match_frame:
  "entry_ok d1 d2 jc rtol atol (add_match_frame r a c ir) s = entry_ok d1 d2 jc rtol atol ir s"
  unfolding entry_ok_def len_def rows_add_match_frame
  by (simp add: filter_map o_def case_prod_unfold cell_of_add_match_other)

lemma entry_ok_add_matches:
  "entry_ok d1 d2 jc rtol atol (add_matches r a cs ir) s = entry_ok d1 d2 jc rtol atol ir s"
  by (induction cs arbitrary: ir) (simp_all add: entry_ok_add_match_frame)

lemma compare_column_entry:
  assumes cc: "compare_column st (int (len ir)) self col = Inr mid"
    and ir: "intersect_rows self = Some ir"
  shows "\<exists>s. column_stats mid = column_stats self @ [s] \<and> column s = col
     \<and> entry_ok (st (df1 self)) (st (df2 self)) (join_columns self) (rel_tol self) (abs_tol self) ir s
     \<and> intersect_rows mid = Some (if col \<in> set (join_columns self) then ir
                                  else add_match_frame (rel_tol self) (abs_tol self) col ir)"
proof (cases "col \<in> set (join_columns self)")
  case True
  from cc show ?thesis
    unfolding compare_column_key[OF True] using True ir
    by (auto simp: entry_ok_def)
next
  case False
  let ?F = "add_match_frame (rel_tol self) (abs_tol self) col ir"
  let ?m = "sum_true (map (\<lambda>(l, r). cell_of r (col @ ''_match'')) (rows ?F))"
  from cc ir False obtain md nd where mid: "mid = self\<lparr>intersect_rows := Some ?F,
      column_stats := column_stats self @
        [\<lparr>column = col, match_column = col @ ''_match'', match_cnt = ?m,
          unequal_cnt = int (len ir) - ?m,
          dtype1 = dtype_of (st (df1 self)) col, dtype2 = dtype_of (st (df2 self)) col,
          all_match = (dtype_of (st (df1 self)) col = dtype_of (st (df2 self)) col
                       \<and> int (len ir) = ?m),
          max_diff = md, null_diff = nd\<rparr>]\<rparr>"
    by (auto simp: compare_column_def Let_def bind_err_eq_Inr get_column_Inr
          set_column_columns_equal)
  show ?thesis
    unfolding mid using False
    by (auto simp: entry_ok_def sum_true_match)
qed

lemma loop_entries:
  assumes "intersect_compare_loop st (int (len ir)) cs self = Inr self'"
    and "intersect_rows self = Some ir"
    and "\<forall>s \<in> set (column_stats self).
           entry_ok (st (df1 self)) (st (df2 self)) (join_columns self)
             (rel_tol self) (abs_tol self) ir s"
  shows "\<forall>s \<in> set (column_stats self').
           entry_ok (st (df1 self)) (st (df2 self)) (join_columns self)
             (rel_tol self) (abs_tol self) ir s"
  using assms
proof (induction cs arbitrary: self ir)
  case Nil
  then show ?case by simp
next
  case (Cons c cs)
  from Cons.prems(1) obtain mid where
    cc: "compare_column st (int (len ir)) self c = Inr mid"
    and lp: "intersect_compare_loop st (int (len ir)) cs mid = Inr self'"
    by (auto simp: bind_err_eq_Inr)
  define ir' where "ir' = (if c \<in> set (join_columns self) then ir
                            else add_match_frame (rel_tol self) (abs_tol self) c ir)"
  from compare_column_entry[OF cc Cons.prems(2)] obtain s where
    cs: "column_stats mid = column_stats self @ [s]"
    and ok: "entry_ok (st (df1 self)) (st (df2 self)) (join_columns self)
               (rel_tol self) (abs_tol self) ir s"
    and im: "intersect_rows mid = Some ir'"
    unfolding ir'_def by blast
  note f = compare_column_fields[OF cc]
  have len: "len ir' = len ir" unfolding ir'_def len_def by (simp add: rows_add_match_frame)
  have inv: "entry_ok d1 d2 jc rr aa ir' x = entry_ok d1 d2 jc rr aa ir x" for d1 d2 jc rr aa x
    unfolding ir'_def by (simp add: entry_ok_add_match_frame)
  from Cons.prems(3) ok have "\<forall>x \<in> set (column_stats mid).
      entry_ok (st (df1 mid)) (st (df2 mid)) (join_columns mid) (rel_tol mid) (abs_tol mid) ir' x"
    unfolding cs inv using f by simp
  from Cons.IH[OF lp[folded len] im this] show ?case unfolding inv using f by simp
qed

lemma completed_entries:
  assumes i: "init st a1 a2 jc oi atol rtol n1 n2 = Inr (st', c)"
  shows "\<exists>ir. intersect_rows c = Some ir
     \<and> (\<forall>s \<in> set (column_stats c).
          entry_ok (st' (df1 c)) (st' (df2 c)) (join_columns c) rtol atol ir s)"
proof -
  from i obtain st0 self where
    ia: "init_attributes st a1 a2 jc oi atol rtol n1 n2 = Inr (st0, self)"
    and cmp: "compare st0 self = Inr (st', c)"
    unfolding init_def by (auto simp: bind_err_eq_Inr)
  note a = init_attributes_Inr[OF ia]
  from a have cs: "column_stats self = []" by simp
  from cmp obtain self1 where dm: "dataframe_merge st0 self = Inr (st', self1)"
    and ic: "intersect_compare st' self1 = Inr c"
    unfolding compare_def by (auto simp: bind_err_eq_Inr)
  from dataframe_merge_Inr[OF dm] obtain u1 u2 ir where
    s1: "self1 = self\<lparr>df1_unq_rows := Some u1, df2_unq_rows := Some u2,
                        intersect_rows := Some ir\<rparr>" by blast
  have ir: "intersect_rows self1 = Some ir" and c1: "column_stats self1 = []"
    and f1: "df1 self1 = df1 self" "df2 self1 = df2 self" "join_columns self1 = join_columns self"
      "rel_tol self1 = rtol" "abs_tol self1 = atol"
    unfolding s1 using a cs by simp_all
  from ic ir have lp: "intersect_compare_loop st' (int (len ir)) (intersect_columns st' self1) self1 = Inr c"
    unfolding intersect_compare_def by simp
  from c1 have "\<forall>s \<in> set (column_stats self1).
      entry_ok (st' (df1 self1)) (st' (df2 self1)) (join_columns self1)
        (rel_tol self1) (abs_tol self1) ir s" by simp
  note e = loop_entries[OF lp ir this]
  from intersect_compare_Inr[OF ic ir] obtain stats where
    c: "c = self1\<lparr>intersect_rows :=
              Some (add_matches (rel_tol self1) (abs_tol self1) (compared_columns st' self1) ir),
            column_stats := column_stats self1 @ stats\<rparr>" by blast
  have fc: "df1 c = df1 self1" "df2 c = df2 self1" "join_columns c = join_columns self1"
    "intersect_rows c = Some (add_matches rtol atol (compared_columns st' self1) ir)"
    by (subst c, simp add: f1)+
  from e show ?thesis unfolding fc f1 by (simp add: entry_ok_add_matches)
qed

subsection \<open>The example of the spec's section 8\<close>

lemma scenario_completes: "scenario = Inr scenario_result"
proof -
  have "\<not> isl scenario" by code_simp
  then show ?thesis by (simp add: scenario_result_def)
qed

lemma scenario_init:
  "init scenario_store (DataFrameRef 0) (DataFrameRef 1) (JStr ''id'') False 0.05 0 ''df1'' ''df2''
     = Inr (fst scenario_result, snd scenario_result)"
  using scenario_completes by (simp add: scenario_def)

subsection \<open>Three comparisons for \<open>subset()\<close>\<close>

lemma subset_of_rows_init:
  "init subset_store (DataFrameRef 0) (DataFrameRef 1) (JStr ''id'') False 0 0 ''df1'' ''df2''
     = Inr (fst (projr subset_of_rows), snd (projr subset_of_rows))"
proof -
  have "\<not> isl subset_of_rows" by code_simp
  then show ?thesis by (simp add: subset_of_rows_def)
qed

lemma subset_extra_column_init:
  "init subset_store (DataFrameRef 0) (DataFrameRef 2) (JStr ''id'') False 0 0 ''df1'' ''df2''
     = Inr (fst (projr subset_extra_column), snd (projr subset_extra_column))"
proof -
  have "\<not> isl subset_extra_column" by code_simp
  then show ?thesis by (simp add: subset_extra_column_def)
qed

lemma subset_other_value_init:
  "init subset_store (DataFrameRef 0) (DataFrameRef 3) (JStr ''id'') False 0 0 ''df1'' ''df2''
     = Inr (fst (projr subset_other_value), snd (projr subset_other_value))"
proof -
  have "\<not> isl subset_other_value" by code_simp
  then show ?thesis by (simp add: subset_other_value_def)
qed

subsection \<open>The frame with lower-case labels\<close>

lemma dtypes_lowered:
  assumes d: "distinct (map lower (columns d))"
  shows "map (dtype_of (lowered d)) (columns (lowered d)) = map (dtype_of d) (columns d)"
proof (rule nth_equalityI)
  show "length (map (dtype_of (lowered d)) (columns (lowered d))) = length (map (dtype_of d) (columns d))"
    by simp
  fix i
  assume "i < length (map (dtype_of (lowered d)) (columns (lowered d)))"
  then have i: "i < length (columns d)" by simp
  from dtype_of_lowered[OF d i] i
  show "map (dtype_of (lowered d)) (columns (lowered d)) ! i = map (dtype_of d) (columns d) ! i"
    by simp
qed

lemma cells_lowered:
  assumes d: "distinct (map lower (columns d))"
  shows "map (\<lambda>x. cells_of (columns (lowered d)) (snd x)) (rows (lowered d))
       = map (\<lambda>x. cells_of (columns d) (snd x)) (rows d)"
proof -
  have "cells_of (map lower (columns d)) (rename_row (columns d) (map lower (columns d)) r)
      = cells_of (columns d) r" for r
    unfolding rename_row_def by (rule cells_of_zip_self[OF d]) (simp add: cells_of_def)
  moreover have "rows (lowered d)
      = map (\<lambda>(l, r). (l, rename_row (columns d) (map lower (columns d)) r)) (rows d)"
    unfolding lowered_def by simp
  ultimately show ?thesis by (simp add: o_def case_prod_unfold)
qed

subsection \<open>The columns of the inputs and of the results\<close>

lemma temporary_columns_removed:
  assumes "init st a1 a2 jc oi atol rtol n1 n2 = Inr (st', c)"
  shows "a1 = DataFrameRef (df1 c) \<and> a2 = DataFrameRef (df2 c)
    \<and> columns (st' (df1 c)) = map lower (columns (st (df1 c)))
    \<and> columns (st' (df2 c)) = map lower (columns (st (df2 c)))
    \<and> (\<forall>r. r \<noteq> df1 c \<and> r \<noteq> df2 c \<longrightarrow> st' r = st r)
    \<and> (\<exists>u1 u2 ir. df1_unq_rows c = Some u1 \<and> df2_unq_rows c = Some u2
          \<and> intersect_rows c = Some ir
          \<and> columns u1 = columns (st' (df1 c)) \<and> columns u2 = columns (st' (df2 c))
          \<and> set (columns ir) =
              set (merged_columns (join_columns c) (columns (st' (df1 c))) (columns (st' (df2 c))))
              \<union> {x @ ''_match'' | x. x \<in> set (intersect_columns st' c) \<and> x \<notin> set (join_columns c)})"
proof -
  from assms obtain st0 self self1 where
    ia: "init_attributes st a1 a2 jc oi atol rtol n1 n2 = Inr (st0, self)"
    and m: "dataframe_merge st0 self = Inr (st', self1)"
    and ic: "intersect_compare st' self1 = Inr c"
    and r: "df1 c = df1 self" "df2 c = df2 self" "join_columns c = join_columns self"
      "df1_unq_rows c = df1_unq_rows self1" "df2_unq_rows c = df2_unq_rows self1"
    by (rule init_parts)
  note ms = dataframe_merge_store[OF m]
  from dataframe_merge_unq[OF m] obtain u1 u2 where
    u: "df1_unq_rows self1 = Some u1" "df2_unq_rows self1 = Some u2"
      "columns u1 = columns (st' (df1 self))" "columns u2 = columns (st' (df2 self))"
    by blast
  from dataframe_merge_columns[OF m init_attributes_index[OF ia]] obtain ir where
    ir: "intersect_rows self1 = Some ir"
      "columns ir = merged_columns (join_columns self) (columns (st0 (df1 self))) (columns (st0 (df2 self)))"
    by blast
  from dataframe_merge_Inr[OF m] have j1: "join_columns self1 = join_columns self"
    "df1 self1 = df1 self" "df2 self1 = df2 self"
    by auto
  from intersect_compare_Inr[OF ic ir(1)] have
    "intersect_rows c = Some (add_matches (rel_tol self1) (abs_tol self1) (compared_columns st' self1) ir)"
    by auto
  moreover have "compared_columns st' self1 = compared_columns st' c"
    by (simp add: compared_columns_def intersect_columns_def r j1)
  ultimately have irc: "intersect_rows c = Some (add_matches (rel_tol self1) (abs_tol self1) (compared_columns st' c) ir)"
    by simp
  have cols: "set (columns (add_matches (rel_tol self1) (abs_tol self1) (compared_columns st' c) ir))
     = set (merged_columns (join_columns c) (columns (st' (df1 c))) (columns (st' (df2 c))))
              \<union> {x @ ''_match'' | x. x \<in> set (intersect_columns st' c) \<and> x \<notin> set (join_columns c)}"
    using ms by (auto simp: columns_add_matches ir(2) r compared_columns_def)
  from init_attributes_Inr[OF ia] init_attributes_store[OF ia] ms u irc cols
  show ?thesis by (simp add: r)
qed

section \<open>The claims\<close>

text \<open>
  C1. For every row of the matched rows and every shared column that is not a join
  column, the value of the match column follows the priority rule: both values missing
  is equal; exactly one missing is not equal; two numbers are equal iff
  \<open>abs (left - right) \<le> abs_tol + rel_tol * abs right\<close>, the tolerance scaled by the value
  of the second frame; anything else is equal iff the two values are the same. The
  tolerances are the ones given to the constructor, and no case raises.
\<close>

theorem match_value_rule:
  assumes "init st a1 a2 jc oi atol rtol n1 n2 = Inr (st', c)"
  shows "\<exists>ir. intersect_rows c = Some ir \<and>
     (\<forall>x \<in> set (rows ir). \<forall>col \<in> set (intersect_columns st' c). col \<notin> set (join_columns c) \<longrightarrow>
        (\<exists>b. cell_of (snd x) (col @ ''_match'') = Bool b \<and>
          (let left = cell_of (snd x) (col @ ''_df1''); right = cell_of (snd x) (col @ ''_df2'') in
             (left = Null \<and> right = Null \<longrightarrow> b) \<and>
             ((left = Null) \<noteq> (right = Null) \<longrightarrow> \<not> b) \<and>
             (\<forall>p q. left = Num p \<and> right = Num q \<longrightarrow> b = (\<bar>p - q\<bar> \<le> atol + rtol * \<bar>q\<bar>)) \<and>
             (left \<noteq> Null \<and> right \<noteq> Null \<and> \<not> (\<exists>p q. left = Num p \<and> right = Num q)
                \<longrightarrow> b = (left = right)))))"
proof -
  from assms obtain u1 u2 ir where "df1_unq_rows c = Some u1" "df2_unq_rows c = Some u2"
    and ir: "intersect_rows c = Some (add_matches rtol atol (compared_columns st' c) ir)"
    by (rule completed)
  have "\<exists>b. cell_of r (col @ ''_match'') = Bool b \<and>
          (let left = cell_of r (col @ ''_df1''); right = cell_of r (col @ ''_df2'') in
             (left = Null \<and> right = Null \<longrightarrow> b) \<and>
             ((left = Null) \<noteq> (right = Null) \<longrightarrow> \<not> b) \<and>
             (\<forall>p q. left = Num p \<and> right = Num q \<longrightarrow> b = (\<bar>p - q\<bar> \<le> atol + rtol * \<bar>q\<bar>)) \<and>
             (left \<noteq> Null \<and> right \<noteq> Null \<and> \<not> (\<exists>p q. left = Num p \<and> right = Num q)
                \<longrightarrow> b = (left = right)))"
    if x: "(l, r) \<in> set (rows (add_matches rtol atol (compared_columns st' c) ir))"
      and col: "col \<in> set (compared_columns st' c)" for l r col
  proof -
    note e = final_row_cells[OF x col]
    show ?thesis
      apply (rule exI[of _ "value_equal rtol atol (cell_of r (col @ ''_df1'')) (cell_of r (col @ ''_df2''))"])
      apply (rule conjI[OF e])
      apply (cases "cell_of r (col @ ''_df1'')"; cases "cell_of r (col @ ''_df2'')")
                     apply (simp_all add: value_equal_def isnull_def Let_def)
      done
  qed
  then show ?thesis unfolding ir
    by (auto simp: compared_columns_def)
qed

theorem match_value_rule_witness:
  "scenario = Inr scenario_result
   \<and> (\<exists>ir. intersect_rows (snd scenario_result) = Some ir
        \<and> cell_of (snd (rows ir ! 1)) ''val_df1'' = Num 2
        \<and> cell_of (snd (rows ir ! 1)) ''val_df2'' = Num 2.1
        \<and> cell_of (snd (rows ir ! 1)) ''val_match'' = Bool False
        \<and> cell_of (snd (rows ir ! 0)) ''val_match'' = Bool True)"
proof -
  from match_value_rule[OF scenario_init] obtain ir where
    ir: "intersect_rows (snd scenario_result) = Some ir"
    and rule: "\<forall>x \<in> set (rows ir). \<forall>col \<in> set (intersect_columns (fst scenario_result) (snd scenario_result)).
       col \<notin> set (join_columns (snd scenario_result)) \<longrightarrow>
        (\<exists>b. cell_of (snd x) (col @ ''_match'') = Bool b \<and>
          (let left = cell_of (snd x) (col @ ''_df1''); right = cell_of (snd x) (col @ ''_df2'') in
             (left = Null \<and> right = Null \<longrightarrow> b) \<and>
             ((left = Null) \<noteq> (right = Null) \<longrightarrow> \<not> b) \<and>
             (\<forall>p q. left = Num p \<and> right = Num q \<longrightarrow> b = (\<bar>p - q\<bar> \<le> 0.05 + 0 * \<bar>q\<bar>)) \<and>
             (left \<noteq> Null \<and> right \<noteq> Null \<and> \<not> (\<exists>p q. left = Num p \<and> right = Num q)
                \<longrightarrow> b = (left = right))))"
    by blast
  have n: "length (rows (the (intersect_rows (snd scenario_result)))) = 2"
    and c: "''val'' \<in> set (intersect_columns (fst scenario_result) (snd scenario_result))"
      "''val'' \<notin> set (join_columns (snd scenario_result))"
    and v: "cell_of (snd (rows (the (intersect_rows (snd scenario_result))) ! 1)) ''val_df1'' = Num 2"
      "cell_of (snd (rows (the (intersect_rows (snd scenario_result))) ! 1)) ''val_df2'' = Num 2.1"
      "cell_of (snd (rows (the (intersect_rows (snd scenario_result))) ! 0)) ''val_df1'' = Num 1"
      "cell_of (snd (rows (the (intersect_rows (snd scenario_result))) ! 0)) ''val_df2'' = Num 1"
    unfolding scenario_result_def by code_simp+
  from n ir have m: "rows ir ! 0 \<in> set (rows ir)" "rows ir ! 1 \<in> set (rows ir)" by simp_all
  from rule m(1) c v(3,4) ir have "cell_of (snd (rows ir ! 0)) ''val_match'' = Bool True"
    by (fastforce simp: Let_def)
  moreover from rule m(2) c v(1,2) ir have "cell_of (snd (rows ir ! 1)) ''val_match'' = Bool False"
    by (fastforce simp: Let_def)
  ultimately show ?thesis using scenario_completes ir v by simp
qed

text \<open>
  C2. The claim is that the join puts every row of each input into exactly one of its two
  partitions, so that \<open>len(df1) = len(df1_unq_rows) + len(intersect_rows)\<close> and the same for
  the second frame, duplicate keys included. The code does not keep this for a frame with
  a duplicate key whose index labels repeat: \<open>self.df1[order_column] = ...\<close> of
  \<open>_dataframe_merge\<close> assigns the ranks of the sorted rows to the unsorted rows, two rows of
  one key get the same rank, and the merge pairs them crosswise. For the frame with the rows
  \<open>(k=1, v=5)\<close>, \<open>(k=2, v=0)\<close>, \<open>(k=1, v=3)\<close>, all labelled 0, compared with a copy of
  itself on \<open>k\<close>, the construction completes with five matched rows for three rows of input,
  and \<open>matches()\<close> is false. Without duplicate keys, and with duplicate keys when no key
  value is missing and the comparison is on the index or the index labels of each frame
  are unique, the two equations hold whenever the construction completes (lemma
  \<open>partition_counts\<close>); the comment \<open>Create order column for uniqueness of match\<close> in
  \<open>_dataframe_merge\<close> says what the rank column is for.
\<close>

theorem duplicate_labels_break_partition:
  "\<not> isl labels_scenario \<and>
   len (fst (projr labels_scenario) 0) = 3 \<and>
   len (fst (projr labels_scenario) 1) = 3 \<and>
   any_dupes (snd (projr labels_scenario)) \<and>
   map_option len (df1_unq_rows (snd (projr labels_scenario))) = Some 0 \<and>
   map_option len (df2_unq_rows (snd (projr labels_scenario))) = Some 0 \<and>
   map_option len (intersect_rows (snd (projr labels_scenario))) = Some 5 \<and>
   matches (fst (projr labels_scenario)) (snd (projr labels_scenario)) False = Inr False"
  unfolding labels_scenario_def by code_simp



text \<open>
  C4. For every completed comparison, \<open>subset()\<close> returns true iff every column of the
  second frame is a column of the first, there is no row of the second frame only, and in
  every matched row the two values of every shared column that is not a join column are
  equal under the tolerances of the constructor (the rule of C1, applied to the cells
  \<open>col_df1\<close> and \<open>col_df2\<close>); it returns false whenever a row of the second frame only
  exists. \<open>subset()\<close> does not raise.
\<close>

theorem subset_formula:
  assumes "init st a1 a2 jc oi atol rtol n1 n2 = Inr (st', c)"
  shows "\<exists>u2 ir. df2_unq_rows c = Some u2 \<and> intersect_rows c = Some ir
      \<and> subset st' c
          = Inr (set (columns (st' (df2 c))) \<subseteq> set (columns (st' (df1 c))) \<and> len u2 = 0
                 \<and> (\<forall>x \<in> set (rows ir).
                      \<forall>col \<in> set (columns (st' (df1 c))) \<inter> set (columns (st' (df2 c))).
                        col \<notin> set (join_columns c) \<longrightarrow>
                          value_equal rtol atol (cell_of (snd x) (col @ ''_df1''))
                                                (cell_of (snd x) (col @ ''_df2''))))
      \<and> (0 < len u2 \<longrightarrow> subset st' c = Inr False)"
proof -
  from assms obtain u1 u2 ir where u: "df1_unq_rows c = Some u1" "df2_unq_rows c = Some u2"
    and ir: "intersect_rows c = Some (add_matches rtol atol (compared_columns st' c) ir)"
    by (rule completed)
  let ?ir = "add_matches rtol atol (compared_columns st' c) ir"
  note m = intersect_rows_match_completed[OF ir]
  have cc: "set (compared_columns st' c)
      = {col \<in> set (columns (st' (df1 c))) \<inter> set (columns (st' (df2 c))).
           col \<notin> set (join_columns c)}"
    by (auto simp: compared_columns_def intersect_columns_def)
  have r: "row_matches (compared_columns st' c) x
       = (\<forall>col \<in> set (columns (st' (df1 c))) \<inter> set (columns (st' (df2 c))).
             col \<notin> set (join_columns c) \<longrightarrow>
               value_equal rtol atol (cell_of (snd x) (col @ ''_df1''))
                                     (cell_of (snd x) (col @ ''_df2'')))"
    if x: "x \<in> set (rows ?ir)" for x
  proof -
    from x have x': "(fst x, snd x) \<in> set (rows ?ir)" by simp
    have "cell_of (snd x) (col @ ''_match'')
        = Bool (value_equal rtol atol (cell_of (snd x) (col @ ''_df1''))
                                      (cell_of (snd x) (col @ ''_df2'')))"
      if "col \<in> set (compared_columns st' c)" for col
      using final_row_cells[OF x' that] .
    then show ?thesis unfolding row_matches_def cc by auto
  qed
  have cols: "(df2_unq_columns st' c = {})
      = (set (columns (st' (df2 c))) \<subseteq> set (columns (st' (df1 c))))"
    unfolding df2_unq_columns_def by auto
  have "subset st' c
          = Inr (df2_unq_columns st' c = {} \<and> len u2 = 0
                 \<and> (\<forall>x \<in> set (rows ?ir). row_matches (compared_columns st' c) x))"
    unfolding subset_def m by (auto simp: u)
  also have "(\<forall>x \<in> set (rows ?ir). row_matches (compared_columns st' c) x)
      = (\<forall>x \<in> set (rows ?ir).
           \<forall>col \<in> set (columns (st' (df1 c))) \<inter> set (columns (st' (df2 c))).
             col \<notin> set (join_columns c) \<longrightarrow>
               value_equal rtol atol (cell_of (snd x) (col @ ''_df1''))
                                     (cell_of (snd x) (col @ ''_df2'')))"
    using r by (intro ball_cong refl)
  finally have s: "subset st' c
      = Inr (set (columns (st' (df2 c))) \<subseteq> set (columns (st' (df1 c))) \<and> len u2 = 0
             \<and> (\<forall>x \<in> set (rows ?ir).
                  \<forall>col \<in> set (columns (st' (df1 c))) \<inter> set (columns (st' (df2 c))).
                    col \<notin> set (join_columns c) \<longrightarrow>
                      value_equal rtol atol (cell_of (snd x) (col @ ''_df1''))
                                            (cell_of (snd x) (col @ ''_df2''))))"
    unfolding cols .
  show ?thesis
  proof (intro exI conjI)
    show "df2_unq_rows c = Some u2" by (rule u)
    show "intersect_rows c = Some ?ir" by (rule ir)
    show "subset st' c
      = Inr (set (columns (st' (df2 c))) \<subseteq> set (columns (st' (df1 c))) \<and> len u2 = 0
             \<and> (\<forall>x \<in> set (rows ?ir).
                  \<forall>col \<in> set (columns (st' (df1 c))) \<inter> set (columns (st' (df2 c))).
                    col \<notin> set (join_columns c) \<longrightarrow>
                      value_equal rtol atol (cell_of (snd x) (col @ ''_df1''))
                                            (cell_of (snd x) (col @ ''_df2''))))"
      by (rule s)
    show "0 < len u2 \<longrightarrow> subset st' c = Inr False" unfolding s by simp
  qed
qed

theorem subset_formula_witness:
  "subset (fst (projr subset_of_rows)) (snd (projr subset_of_rows)) = Inr True
   \<and> map_option len (df2_unq_rows (snd (projr subset_of_rows))) = Some 0
   \<and> map_option len (df1_unq_rows (snd (projr subset_of_rows))) = Some 1
   \<and> subset (fst (projr subset_extra_column)) (snd (projr subset_extra_column)) = Inr False
   \<and> map_option len (df2_unq_rows (snd (projr subset_extra_column))) = Some 0
   \<and> columns (fst (projr subset_extra_column) 2) = [''id'', ''val'', ''extra'']
   \<and> subset (fst (projr subset_other_value)) (snd (projr subset_other_value)) = Inr False
   \<and> map_option len (df2_unq_rows (snd (projr subset_other_value))) = Some 0
   \<and> map (\<lambda>x. (cell_of (snd x) ''val_df1'', cell_of (snd x) ''val_df2''))
         (rows (the (intersect_rows (snd (projr subset_other_value)))))
       = [(Num 1, Num 1), (Num 2, Num 5)]
   \<and> subset (fst scenario_result) (snd scenario_result) = Inr False
   \<and> map_option len (df2_unq_rows (snd scenario_result)) = Some 1"
proof -
  have a: "map_option len (df2_unq_rows (snd (projr subset_of_rows))) = Some 0"
    "map_option len (df1_unq_rows (snd (projr subset_of_rows))) = Some 1"
    "columns (fst (projr subset_of_rows) (df1 (snd (projr subset_of_rows)))) = [''id'', ''val'']"
    "columns (fst (projr subset_of_rows) (df2 (snd (projr subset_of_rows)))) = [''id'', ''val'']"
    "join_columns (snd (projr subset_of_rows)) = [''id'']"
    "map (\<lambda>x. (cell_of (snd x) ''val_df1'', cell_of (snd x) ''val_df2''))
         (rows (the (intersect_rows (snd (projr subset_of_rows)))))
       = [(Num 1, Num 1), (Num 2, Num 2)]"
    unfolding subset_of_rows_def by code_simp+
  have b: "map_option len (df2_unq_rows (snd (projr subset_extra_column))) = Some 0"
    "columns (fst (projr subset_extra_column) 2) = [''id'', ''val'', ''extra'']"
    "columns (fst (projr subset_extra_column) (df1 (snd (projr subset_extra_column)))) = [''id'', ''val'']"
    "columns (fst (projr subset_extra_column) (df2 (snd (projr subset_extra_column))))
       = [''id'', ''val'', ''extra'']"
    unfolding subset_extra_column_def by code_simp+
  have v: "map_option len (df2_unq_rows (snd (projr subset_other_value))) = Some 0"
    "columns (fst (projr subset_other_value) (df1 (snd (projr subset_other_value)))) = [''id'', ''val'']"
    "columns (fst (projr subset_other_value) (df2 (snd (projr subset_other_value)))) = [''id'', ''val'']"
    "join_columns (snd (projr subset_other_value)) = [''id'']"
    "map (\<lambda>x. (cell_of (snd x) ''val_df1'', cell_of (snd x) ''val_df2''))
         (rows (the (intersect_rows (snd (projr subset_other_value)))))
       = [(Num 1, Num 1), (Num 2, Num 5)]"
    unfolding subset_other_value_def by code_simp+
  have u: "map_option len (df2_unq_rows (snd scenario_result)) = Some 1"
    unfolding scenario_result_def by code_simp
  have ve: "value_equal 0 0 (Num 1) (Num 1)" "value_equal 0 0 (Num 2) (Num 2)"
    "\<not> value_equal 0 0 (Num 2) (Num 5)"
    by (simp_all add: value_equal_def isnull_def)
  have cells: "(\<forall>x \<in> set (rows ir). P (cell_of (snd x) ''val_df1'') (cell_of (snd x) ''val_df2''))
      = list_all (\<lambda>p. P (fst p) (snd p))
          (map (\<lambda>x. (cell_of (snd x) ''val_df1'', cell_of (snd x) ''val_df2'')) (rows ir))"
    for ir :: dataframe and P
    by (simp add: list_all_iff)
  from subset_formula[OF subset_of_rows_init] a ve
  have 1: "subset (fst (projr subset_of_rows)) (snd (projr subset_of_rows)) = Inr True"
    by (auto simp: cells)
  from subset_formula[OF subset_extra_column_init] b
  have 2: "subset (fst (projr subset_extra_column)) (snd (projr subset_extra_column)) = Inr False"
    by auto
  from subset_formula[OF subset_other_value_init] v ve
  have 3: "subset (fst (projr subset_other_value)) (snd (projr subset_other_value)) = Inr False"
    by (auto simp: cells)
  from subset_formula[OF scenario_init] u
  have 4: "subset (fst scenario_result) (snd scenario_result) = Inr False" by auto
  from 1 2 3 4 a b v u show ?thesis by simp
qed

text \<open>
  C5. The claim is that a frame \<open>D\<close> with duplicate keys compared against \<open>D\<close> has no
  unique rows on either side and every duplicate matched. When \<open>D\<close> is passed as both
  arguments, \<open>self.df1\<close> and \<open>self.df2\<close> are one object: \<open>_dataframe_merge\<close> drops the
  rank column from \<open>self.df1\<close> and then from \<open>self.df2\<close>, where it is no longer, and the
  constructor raises \<open>KeyError\<close>. The frame has the two rows \<open>(a=1, b=2)\<close>, joined on \<open>a\<close>.
  Two distinct objects with these rows are matched in full (lemma \<open>equal_copies_match\<close>),
  and so is every frame against an equal frame held in another object, when no key value
  is missing and the index labels are unique or the comparison is on the index (lemma
  \<open>self_comparison_counts\<close>).
\<close>

theorem same_object_with_duplicates_raises:
  "isl same_object_scenario \<and> projl same_object_scenario = KeyError ''_temp_0''"
  unfolding same_object_scenario_def by code_simp

text \<open>
  C6. For the same inputs and join configuration, a completed run with tolerances
  \<open>abs_tol' \<ge> abs_tol\<close> and \<open>rel_tol' \<ge> rel_tol\<close> counts at least as many matching rows as
  a completed run with \<open>abs_tol\<close> and \<open>rel_tol\<close>; \<open>count_matching_rows()\<close> raises in
  neither.
\<close>

theorem count_matching_rows_monotone:
  assumes "init st a1 a2 jc oi atol rtol n1 n2 = Inr (s1, c1)"
    and "init st a1 a2 jc oi atol' rtol' n1 n2 = Inr (s2, c2)"
    and "atol \<le> atol'" and "rtol \<le> rtol'"
  shows "\<exists>k1 k2. count_matching_rows s1 c1 = Inr k1 \<and> count_matching_rows s2 c2 = Inr k2 \<and> k1 \<le> k2"
proof -
  from assms(1) obtain st0 self where ia1: "init_attributes st a1 a2 jc oi atol rtol n1 n2 = Inr (st0, self)"
    and cmp1: "compare st0 self = Inr (s1, c1)"
    by (auto simp: init_def bind_err_eq_Inr)
  let ?self' = "self\<lparr>abs_tol := atol', rel_tol := rtol'\<rparr>"
  from assms(2) init_attributes_tolerances[OF ia1, of atol' rtol']
  have cmp2: "compare st0 ?self' = Inr (s2, c2)"
    by (simp add: init_def)
  note f = init_attributes_Inr[OF ia1]
  from f have cs: "column_stats self = []" "column_stats ?self' = []" by simp_all
  from compare_Inr[OF cmp1 cs(1)] obtain u1 u2 ir stats where
    m1: "dataframe_merge st0 self = Inr (s1, self\<lparr>df1_unq_rows := Some u1, df2_unq_rows := Some u2,
                                  intersect_rows := Some ir\<rparr>)"
    and c1: "c1 = self\<lparr>df1_unq_rows := Some u1, df2_unq_rows := Some u2,
              intersect_rows := Some (add_matches (rel_tol self) (abs_tol self) (compared_columns s1 self) ir),
              column_stats := stats\<rparr>"
    by blast
  from compare_Inr[OF cmp2 cs(2)] obtain u1' u2' ir' stats' where
    m2: "dataframe_merge st0 ?self' = Inr (s2, ?self'\<lparr>df1_unq_rows := Some u1', df2_unq_rows := Some u2',
                                  intersect_rows := Some ir'\<rparr>)"
    and c2: "c2 = ?self'\<lparr>df1_unq_rows := Some u1', df2_unq_rows := Some u2',
              intersect_rows := Some (add_matches (rel_tol ?self') (abs_tol ?self') (compared_columns s2 ?self') ir'),
              column_stats := stats'\<rparr>"
    by blast
  from dataframe_merge_tolerances[OF m1, where a=atol' and r=rtol'] m2
  have s: "s2 = s1"
    and e: "?self'\<lparr>df1_unq_rows := Some u1', df2_unq_rows := Some u2', intersect_rows := Some ir'\<rparr>
          = self\<lparr>df1_unq_rows := Some u1, df2_unq_rows := Some u2, intersect_rows := Some ir,
                 abs_tol := atol', rel_tol := rtol'\<rparr>"
    by simp_all
  from arg_cong[OF e, of intersect_rows] have "ir' = ir" by simp
  with s have same: "s2 = s1" "ir' = ir" by simp_all
  have cc: "compared_columns s1 c1 = compared_columns s1 self" "compared_columns s2 c2 = compared_columns s1 self"
    by (simp_all add: c1 c2 same compared_columns_def intersect_columns_def)
  let ?cs = "compared_columns s1 self"
  have i1: "intersect_rows c1 = Some (add_matches rtol atol (compared_columns s1 c1) ir)"
    unfolding cc(1) using f by (simp add: c1)
  have i2: "intersect_rows c2 = Some (add_matches rtol' atol' (compared_columns s2 c2) ir)"
    unfolding cc(2) by (simp add: c2 same compared_columns_def intersect_columns_def)
  have k1: "count_matching_rows s1 c1 = Inr (int (length (filter (values_match rtol atol ?cs) (rows ir))))"
    using count_matching_rows_add_matches[OF i1] by (simp add: cc filter_row_matches_add_matches)
  have k2: "count_matching_rows s2 c2 = Inr (int (length (filter (values_match rtol' atol' ?cs) (rows ir))))"
    using count_matching_rows_add_matches[OF i2] by (simp add: cc filter_row_matches_add_matches)
  have "length (filter (values_match rtol atol ?cs) (rows ir))
         \<le> length (filter (values_match rtol' atol' ?cs) (rows ir))"
    by (rule length_filter_mono) (auto simp: values_match_def intro: value_equal_mono[OF assms(3,4)])
  with k1 k2 show ?thesis by simp
qed

theorem count_matching_rows_monotone_witness:
  "scenario = Inr scenario_result \<and> scenario_wide = Inr scenario_wide_result
   \<and> count_matching_rows (fst scenario_result) (snd scenario_result) = Inr 1
   \<and> count_matching_rows (fst scenario_wide_result) (snd scenario_wide_result) = Inr 2"
proof -
  have k: "count_matching_rows (fst scenario_result) (snd scenario_result) = Inr 1"
    "count_matching_rows (fst scenario_wide_result) (snd scenario_wide_result) = Inr 2"
    unfolding scenario_result_def scenario_wide_result_def by code_simp+
  have "(0.05::real) \<le> 0.2" "(0::real) \<le> 0" by simp_all
  from count_matching_rows_monotone[OF scenario_init scenario_wide_init this] k
    scenario_completes scenario_wide_completes
  show ?thesis by simp
qed

text \<open>
  C7. Every validation error is raised by the assignments of \<open>__init__\<close>, before
  \<open>_compare\<close> runs, and the constructor then returns no comparison: giving both
  \<open>join_columns\<close> and \<open>on_index\<close> raises \<open>Exception\<close>, giving neither raises
  \<open>TypeError\<close> (Python cannot iterate over \<open>None\<close>), an argument that is not a data frame
  raises \<open>TypeError\<close>, and missing join columns or repeated column names raise
  \<open>ValueError\<close>, for the first frame and then for the second.
\<close>

theorem validation_errors_are_eager:
  "(oi \<and> jc \<noteq> JNone \<longrightarrow>
      init st a1 a2 jc oi atol rtol n1 n2 = Inl (Exception ''Only provide on_index or join_columns''))
   \<and> (\<not> oi \<and> jc = JNone \<longrightarrow>
      init st a1 a2 jc oi atol rtol n1 n2 = Inl (TypeError ''NoneType object is not iterable''))
   \<and> (\<forall>e. init_attributes st a1 a2 jc oi atol rtol n1 n2 = Inl e \<longrightarrow>
      init st a1 a2 jc oi atol rtol n1 n2 = Inl e)
   \<and> (oi = (jc = JNone) \<longrightarrow>
       (a1 = OtherObject \<longrightarrow>
          init st a1 a2 jc oi atol rtol n1 n2 = Inl (TypeError ''df1 must be a pandas DataFrame''))
     \<and> (\<forall>r. a1 = DataFrameRef r \<and> \<not> set (resolve_join jc oi) \<subseteq> set (map lower (columns (st r))) \<longrightarrow>
          init st a1 a2 jc oi atol rtol n1 n2
            = Inl (ValueError ''df1 must have all columns from join_columns''))
     \<and> (\<forall>r. a1 = DataFrameRef r \<and> set (resolve_join jc oi) \<subseteq> set (map lower (columns (st r)))
              \<and> \<not> distinct (map lower (columns (st r))) \<longrightarrow>
          init st a1 a2 jc oi atol rtol n1 n2 = Inl (ValueError ''df1 must have unique column names''))
     \<and> (\<forall>st1 dupes1 r1.
          validate_dataframe st (resolve_join jc oi) oi False ''df1'' a1 = Inr (st1, dupes1, r1) \<longrightarrow>
            (a2 = OtherObject \<longrightarrow>
               init st a1 a2 jc oi atol rtol n1 n2 = Inl (TypeError ''df2 must be a pandas DataFrame''))
          \<and> (\<forall>r. a2 = DataFrameRef r
                   \<and> \<not> set (resolve_join jc oi) \<subseteq> set (map lower (columns (st r))) \<longrightarrow>
               init st a1 a2 jc oi atol rtol n1 n2
                 = Inl (ValueError ''df2 must have all columns from join_columns''))
          \<and> (\<forall>r. a2 = DataFrameRef r \<and> set (resolve_join jc oi) \<subseteq> set (map lower (columns (st r)))
                   \<and> \<not> distinct (map lower (columns (st r))) \<longrightarrow>
               init st a1 a2 jc oi atol rtol n1 n2
                 = Inl (ValueError ''df2 must have unique column names''))))"
proof (intro conjI impI allI)
  assume "oi \<and> jc \<noteq> JNone"
  then show "init st a1 a2 jc oi atol rtol n1 n2 = Inl (Exception ''Only provide on_index or join_columns'')"
    by (simp add: init_def init_attributes_def)
next
  assume "\<not> oi \<and> jc = JNone"
  then show "init st a1 a2 jc oi atol rtol n1 n2 = Inl (TypeError ''NoneType object is not iterable'')"
    by (simp add: init_def init_attributes_def)
next
  fix e assume "init_attributes st a1 a2 jc oi atol rtol n1 n2 = Inl e"
  then show "init st a1 a2 jc oi atol rtol n1 n2 = Inl e" by (simp add: init_def)
next
  assume m: "oi = (jc = JNone)" and a: "a1 = OtherObject"
  show "init st a1 a2 jc oi atol rtol n1 n2 = Inl (TypeError ''df1 must be a pandas DataFrame'')"
    unfolding init_def init_attributes_resolved[OF m] a by (simp add: validate_not_a_frame)
next
  fix r assume m: "oi = (jc = JNone)"
    and a: "a1 = DataFrameRef r \<and> \<not> set (resolve_join jc oi) \<subseteq> set (map lower (columns (st r)))"
  from a have a1: "a1 = DataFrameRef r" by simp
  from a validate_missing_join_columns[of "resolve_join jc oi" st r oi False "''df1''"]
  show "init st a1 a2 jc oi atol rtol n1 n2 = Inl (ValueError ''df1 must have all columns from join_columns'')"
    unfolding init_def init_attributes_resolved[OF m] a1 by simp
next
  fix r assume m: "oi = (jc = JNone)"
    and a: "a1 = DataFrameRef r \<and> set (resolve_join jc oi) \<subseteq> set (map lower (columns (st r)))
              \<and> \<not> distinct (map lower (columns (st r)))"
  from a have a1: "a1 = DataFrameRef r" by simp
  from a validate_duplicate_columns[of "resolve_join jc oi" st r oi False "''df1''"]
  show "init st a1 a2 jc oi atol rtol n1 n2 = Inl (ValueError ''df1 must have unique column names'')"
    unfolding init_def init_attributes_resolved[OF m] a1 by simp
next
  fix st1 dupes1 r1
  assume m: "oi = (jc = JNone)"
    and v: "validate_dataframe st (resolve_join jc oi) oi False ''df1'' a1 = Inr (st1, dupes1, r1)"
    and a: "a2 = OtherObject"
  show "init st a1 a2 jc oi atol rtol n1 n2 = Inl (TypeError ''df2 must be a pandas DataFrame'')"
    unfolding init_def init_attributes_resolved[OF m] v a by (simp add: validate_not_a_frame)
next
  fix st1 dupes1 r1 r
  assume m: "oi = (jc = JNone)"
    and v: "validate_dataframe st (resolve_join jc oi) oi False ''df1'' a1 = Inr (st1, dupes1, r1)"
    and a: "a2 = DataFrameRef r \<and> \<not> set (resolve_join jc oi) \<subseteq> set (map lower (columns (st r)))"
  from a columns_after_first_validation[OF v, of r]
  have "\<not> set (resolve_join jc oi) \<subseteq> set (map lower (columns (st1 r)))" by simp
  with validate_missing_join_columns[of "resolve_join jc oi" st1 r oi dupes1 "''df2''"] a
  show "init st a1 a2 jc oi atol rtol n1 n2 = Inl (ValueError ''df2 must have all columns from join_columns'')"
    unfolding init_def init_attributes_resolved[OF m] v by simp
next
  fix st1 dupes1 r1 r
  assume m: "oi = (jc = JNone)"
    and v: "validate_dataframe st (resolve_join jc oi) oi False ''df1'' a1 = Inr (st1, dupes1, r1)"
    and a: "a2 = DataFrameRef r \<and> set (resolve_join jc oi) \<subseteq> set (map lower (columns (st r)))
                   \<and> \<not> distinct (map lower (columns (st r)))"
  from a columns_after_first_validation[OF v, of r]
  have "set (resolve_join jc oi) \<subseteq> set (map lower (columns (st1 r)))"
    "\<not> distinct (map lower (columns (st1 r)))" by simp_all
  with validate_duplicate_columns[of "resolve_join jc oi" st1 r oi dupes1 "''df2''"] a
  show "init st a1 a2 jc oi atol rtol n1 n2 = Inl (ValueError ''df2 must have unique column names'')"
    unfolding init_def init_attributes_resolved[OF m] v by simp
qed

theorem validation_errors_are_eager_witness:
  "init scenario_store (DataFrameRef 0) (DataFrameRef 1) (JStr ''id'') True 0 0 ''df1'' ''df2''
     = Inl (Exception ''Only provide on_index or join_columns'')
   \<and> init scenario_store (DataFrameRef 0) (DataFrameRef 1) JNone False 0 0 ''df1'' ''df2''
     = Inl (TypeError ''NoneType object is not iterable'')
   \<and> init scenario_store OtherObject (DataFrameRef 1) (JStr ''id'') False 0 0 ''df1'' ''df2''
     = Inl (TypeError ''df1 must be a pandas DataFrame'')
   \<and> init scenario_store (DataFrameRef 0) (DataFrameRef 1) (JStr ''key'') False 0 0 ''df1'' ''df2''
     = Inl (ValueError ''df1 must have all columns from join_columns'')"
proof -
  have c: "\<not> set (resolve_join (JStr ''key'') False) \<subseteq> set (map lower (columns (scenario_store 0)))"
    by code_simp
  from validation_errors_are_eager[of True "JStr ''id''" scenario_store "DataFrameRef 0" "DataFrameRef 1" 0 0 "''df1''" "''df2''"]
    validation_errors_are_eager[of False JNone scenario_store "DataFrameRef 0" "DataFrameRef 1" 0 0 "''df1''" "''df2''"]
    validation_errors_are_eager[of False "JStr ''id''" scenario_store OtherObject "DataFrameRef 1" 0 0 "''df1''" "''df2''"]
    validation_errors_are_eager[of False "JStr ''key''" scenario_store "DataFrameRef 0" "DataFrameRef 1" 0 0 "''df1''" "''df2''"]
    c
  show ?thesis by simp
qed

text \<open>
  C8. For every completed comparison, every shared column that is not a join column, every
  random source and every sample count that is not negative, \<open>sample_mismatch\<close> does not
  raise and returns exactly \<open>min(sample_count, number of matched rows that mismatch on
  the column)\<close> rows; they are the rows at pairwise different positions of the matched
  rows, each a mismatch on the column, with their index labels and their cells of the join
  columns and of the two versions of the column.
\<close>

theorem sample_mismatch_rows:
  assumes "init st a1 a2 jc oi atol rtol n1 n2 = Inr (st', c)"
    and col: "col \<in> set (intersect_columns st' c)" "col \<notin> set (join_columns c)"
    and nonneg: "0 \<le> sample_count"
  shows "\<exists>ir res ps. intersect_rows c = Some ir
     \<and> sample_mismatch rnd c col sample_count for_display = Inr res
     \<and> int (len res) = min sample_count
          (int (length (filter (\<lambda>x. cell_of (snd x) (col @ ''_match'') = Bool False) (rows ir))))
     \<and> distinct ps
     \<and> (\<forall>p \<in> set ps. p < len ir \<and> cell_of (snd (rows ir ! p)) (col @ ''_match'') = Bool False)
     \<and> map fst (rows res) = map (\<lambda>p. fst (rows ir ! p)) ps
     \<and> map (\<lambda>x. map snd (snd x)) (rows res)
         = map (\<lambda>p. cells_of (join_columns c @ [col @ ''_df1'', col @ ''_df2'']) (snd (rows ir ! p))) ps"
proof -
  let ?cs = "compared_columns st' c"
  let ?cm = "col @ ''_match''"
  let ?rc = "join_columns c @ [col @ ''_df1'', col @ ''_df2'']"
  from assms(1) obtain ir0 where
    irc: "intersect_rows c = Some (add_matches rtol atol ?cs ir0)"
    and jc: "set (join_columns c) \<subseteq> set (columns ir0)"
    and src: "\<forall>x \<in> set ?cs. x @ ''_df1'' \<in> set (columns ir0) \<and> x @ ''_df2'' \<in> set (columns ir0)"
    by (rule completed_columns)
  define ir where "ir = add_matches rtol atol ?cs ir0"
  define xs where "xs = rows ir"
  define P where "P = (\<lambda>x :: cell \<times> row. cell_of (snd x) ?cm = Bool False)"
  have colc: "col \<in> set ?cs" using col by (simp add: compared_columns_def)
  have cols: "set (columns ir) = set (columns ir0) \<union> (\<lambda>c. c @ ''_match'') ` set ?cs"
    by (simp add: ir_def columns_add_matches)
  have cm: "?cm \<in> set (columns ir)" using colc by (auto simp: cols)
  have rc: "set ?rc \<subseteq> set (columns ir)" using jc src colc by (auto simp: cols)
  have bools: "\<forall>x \<in> set xs. \<exists>b. cell_of (snd x) ?cm = Bool b"
  proof
    fix x assume "x \<in> set xs"
    then have "(fst x, snd x) \<in> set (rows (add_matches rtol atol ?cs ir0))"
      by (simp add: xs_def ir_def)
    from final_row_cells[OF this colc] show "\<exists>b. cell_of (snd x) ?cm = Bool b" by blast
  qed
  have gc: "get_column ir ?cm = Inr (map (\<lambda>x. cell_of (snd x) ?cm) xs)"
    using cm by (simp add: get_column_def xs_def case_prod_unfold)
  have st: "sum_true (map (\<lambda>x. cell_of (snd x) ?cm) xs)
              = int (length (filter (\<lambda>x. cell_of (snd x) ?cm = Bool True) xs))"
    by (simp add: sum_true_def filter_map o_def)
  define k where "k = min sample_count (int (length (filter P xs)))"
  have diff: "int (len ir) - sum_true (map (\<lambda>x. cell_of (snd x) ?cm) xs) = int (length (filter P xs))"
    unfolding st P_def len_def xs_def[symmetric] by (rule count_bool_split[OF bools])
  have k0: "0 \<le> k" "k \<le> int (length (filter P xs))" using nonneg by (simp_all add: k_def)
  define fr where "fr = filter_rows (\<lambda>r. cell_of r ?cm = Bool False) ir"
  have frr: "rows fr = filter P xs" "columns fr = columns ir"
    by (simp_all add: fr_def filter_rows_def xs_def P_def case_prod_unfold)
  have smp: "sample rnd fr k = Inr (fr\<lparr>rows := sample_list rnd (nat k) (filter P xs)\<rparr>)"
    using sample_Inr[of k fr rnd] k0 by (simp add: len_def frr)
  from sample_filter_positions[of xs P "nat k" rnd] obtain ps where ps: "distinct ps"
    "\<forall>p \<in> set ps. p < length xs \<and> P (xs ! p)" "length ps = min (nat k) (length (filter P xs))"
    "sample_list rnd (nat k) (filter P xs) = map ((!) xs) ps"
    by blast
  define sm where "sm = fr\<lparr>rows := map ((!) xs) ps\<rparr>"
  have smp': "sample rnd fr k = Inr sm" by (simp add: smp ps(4) sm_def)
  have smc: "columns sm = columns ir" "rows sm = map ((!) xs) ps" by (simp_all add: sm_def frr)
  define sel where "sel = sm\<lparr>columns := ?rc, dtypes := map (\<lambda>n. (n, dtype_of sm n)) ?rc,
            rows := map (\<lambda>(l, r). (l, map (\<lambda>n. (n, cell_of r n)) ?rc)) (rows sm)\<rparr>"
  have sel: "select_columns sm ?rc = Inr sel"
    unfolding sel_def by (rule select_columns_Inr) (use rc smc in simp)
  let ?new = "join_columns c @ [col @ '' ('' @ df1_name c @ '')'', col @ '' ('' @ df2_name c @ '')'']"
  define res where "res = (if for_display
       then sel\<lparr>columns := ?new, dtypes := zip ?new (map (dtype_of sel) (columns sel)),
               rows := map (\<lambda>(l, r). (l, rename_row (columns sel) ?new r)) (rows sel)\<rparr>
       else sel)"
  have ren: "(if for_display then rename_columns sel ?new else Inr sel) = Inr res"
    by (simp add: res_def rename_columns_def sel_def)
  have run: "sample_mismatch rnd c col sample_count for_display = Inr res"
    unfolding sample_mismatch_def irc ir_def[symmetric]
    by (simp add: gc Let_def diff k_def[symmetric] fr_def[symmetric] smp' sel ren)
  have fsts: "map fst (rows res) = map (\<lambda>p. fst (xs ! p)) ps"
    by (simp add: res_def sel_def smc case_prod_unfold o_def)
  have cells: "map (\<lambda>x. map snd (snd x)) (rows res) = map (\<lambda>p. cells_of ?rc (snd (xs ! p))) ps"
  proof (cases for_display)
    case False
    then show ?thesis
      by (simp add: res_def sel_def smc case_prod_unfold o_def cells_of_def)
  next
    case True
    have "map snd (rename_row ?rc ?new (map (\<lambda>n. (n, cell_of r n)) ?rc)) = cells_of ?rc r" for r
    proof -
      have "cells_of ?rc (map (\<lambda>n. (n, cell_of r n)) ?rc) = cells_of ?rc r"
        unfolding cells_of_def by (intro map_cong refl cell_of_selected)
      then show ?thesis by (simp add: rename_row_def cells_of_def)
    qed
    with True show ?thesis
      by (simp add: res_def sel_def smc case_prod_unfold o_def)
  qed
  have lenr: "int (len res) = min sample_count (int (length (filter P xs)))"
  proof -
    have "len res = length ps" by (simp add: len_def res_def sel_def smc)
    also have "int (length ps) = k" using ps(3) k0 by simp
    finally show ?thesis by (simp add: k_def)
  qed
  show ?thesis
    apply (rule exI[of _ ir], rule exI[of _ res], rule exI[of _ ps])
    using irc run lenr ps(1,2) fsts cells
    by (simp add: ir_def[symmetric] xs_def[symmetric] P_def len_def)
qed

theorem sample_mismatch_rows_witness:
  "scenario = Inr scenario_result
   \<and> (\<exists>res. sample_mismatch [] (snd scenario_result) ''val'' 10 False = Inr res \<and> len res = 1)"
proof -
  have c: "''val'' \<in> set (intersect_columns (fst scenario_result) (snd scenario_result))"
    "''val'' \<notin> set (join_columns (snd scenario_result))"
    and n: "length (filter (\<lambda>x. cell_of (snd x) (''val'' @ ''_match'') = Bool False)
              (rows (the (intersect_rows (snd scenario_result))))) = 1"
    unfolding scenario_result_def by code_simp+
  have "(0::int) \<le> 10" by simp
  from sample_mismatch_rows[OF scenario_init c this, of "[]" False] n scenario_completes
  show ?thesis by auto
qed

text \<open>
  C9, as amended. A completed construction changes the two input frames only by writing
  their column labels in lower case: each of them is afterwards exactly the frame that
  \<open>dataframe.columns = [col.lower() for col in dataframe.columns]\<close> makes of the input,
  with the index, the values of every row and the dtypes, read by position, as they were
  before; no other frame of the caller has changed. The temporary index and order columns
  are gone from both inputs and from the results: the frames of unique rows have the
  columns of their input, and the matched rows have the columns of the merge of the two
  inputs on the join columns and the match columns.
\<close>

theorem inputs_keep_their_columns_lowered:
  assumes "init st a1 a2 jc oi atol rtol n1 n2 = Inr (st', c)"
  shows "a1 = DataFrameRef (df1 c) \<and> a2 = DataFrameRef (df2 c)
    \<and> (\<forall>r \<in> {df1 c, df2 c}.
          rename_columns (st r) (map lower (columns (st r))) = Inr (st' r)
        \<and> columns (st' r) = map lower (columns (st r))
        \<and> index (st' r) = index (st r)
        \<and> map (\<lambda>x. cells_of (columns (st' r)) (snd x)) (rows (st' r))
            = map (\<lambda>x. cells_of (columns (st r)) (snd x)) (rows (st r))
        \<and> map (dtype_of (st' r)) (columns (st' r)) = map (dtype_of (st r)) (columns (st r)))
    \<and> (\<forall>r. r \<noteq> df1 c \<and> r \<noteq> df2 c \<longrightarrow> st' r = st r)
    \<and> (\<exists>u1 u2 ir. df1_unq_rows c = Some u1 \<and> df2_unq_rows c = Some u2
          \<and> intersect_rows c = Some ir
          \<and> columns u1 = columns (st' (df1 c)) \<and> columns u2 = columns (st' (df2 c))
          \<and> set (columns ir) =
              set (merged_columns (join_columns c) (columns (st' (df1 c))) (columns (st' (df2 c))))
              \<union> {x @ ''_match'' | x. x \<in> set (intersect_columns st' c) \<and> x \<notin> set (join_columns c)})"
proof -
  note f = completed_frames[OF assms]
  have one: "rename_columns d (map lower (columns d)) = Inr (lowered d)
        \<and> columns (lowered d) = map lower (columns d)
        \<and> index (lowered d) = index d
        \<and> map (\<lambda>x. cells_of (columns (lowered d)) (snd x)) (rows (lowered d))
            = map (\<lambda>x. cells_of (columns d) (snd x)) (rows d)
        \<and> map (dtype_of (lowered d)) (columns (lowered d)) = map (dtype_of d) (columns d)"
    if "distinct (map lower (columns d))" for d
    using cells_lowered[OF that] dtypes_lowered[OF that] by (simp add: rename_lower)
  let ?P = "\<lambda>r. rename_columns (st r) (map lower (columns (st r))) = Inr (st' r)
        \<and> columns (st' r) = map lower (columns (st r))
        \<and> index (st' r) = index (st r)
        \<and> map (\<lambda>x. cells_of (columns (st' r)) (snd x)) (rows (st' r))
            = map (\<lambda>x. cells_of (columns (st r)) (snd x)) (rows (st r))
        \<and> map (dtype_of (st' r)) (columns (st' r)) = map (dtype_of (st r)) (columns (st r))"
  have "?P (df1 c)" unfolding f(1) by (rule one[OF f(3)])
  moreover have "?P (df2 c)" unfolding f(2) by (rule one[OF f(4)])
  ultimately have "\<forall>r \<in> {df1 c, df2 c}. ?P r" by blast
  with temporary_columns_removed[OF assms] show ?thesis by blast
qed

theorem inputs_keep_their_columns_lowered_witness:
  "scenario = Inr scenario_result
   \<and> columns (scenario_store 0) = [''ID'', ''val'']
   \<and> columns (fst scenario_result 0) = [''id'', ''val'']
   \<and> columns (fst scenario_result 1) = [''id'', ''val'']
   \<and> rename_columns (scenario_store 0) [''id'', ''val''] = Inr (fst scenario_result 0)
   \<and> rows (fst scenario_result 0)
       = [(Num 0, [(''id'', Num 1), (''val'', Num 1)]),
          (Num 1, [(''id'', Num 2), (''val'', Num 2)]),
          (Num 2, [(''id'', Num 3), (''val'', Num 3)])]
   \<and> dtypes (fst scenario_result 0) = [(''id'', ''float64''), (''val'', ''float64'')]"
proof -
  have d: "df1 (snd scenario_result) = 0" "df2 (snd scenario_result) = 1"
    unfolding scenario_result_def by code_simp+
  have c: "columns (scenario_store 0) = [''ID'', ''val'']" "map lower [''ID'', ''val''] = [''id'', ''val'']"
    "columns (scenario_store 1) = [''id'', ''val'']" "map lower [''id'', ''val''] = [''id'', ''val'']"
    by code_simp+
  have r: "rows (fst scenario_result 0)
       = [(Num 0, [(''id'', Num 1), (''val'', Num 1)]),
          (Num 1, [(''id'', Num 2), (''val'', Num 2)]),
          (Num 2, [(''id'', Num 3), (''val'', Num 3)])]"
    "dtypes (fst scenario_result 0) = [(''id'', ''float64''), (''val'', ''float64'')]"
    unfolding scenario_result_def by code_simp+
  from inputs_keep_their_columns_lowered[OF scenario_init] d c r scenario_completes
  show ?thesis by simp
qed

text \<open>
  The claim C9 as written says that both inputs hold exactly the columns they held before.
  In the example the left frame's column \<open>ID\<close> is \<open>id\<close> after the construction.
\<close>

theorem inputs_keep_exact_columns_counterexample:
  "scenario = Inr scenario_result
   \<and> columns (scenario_store 0) = [''ID'', ''val'']
   \<and> columns (fst scenario_result 0) = [''id'', ''val'']"
proof -
  have "columns (scenario_store 0) = [''ID'', ''val'']"
    "columns (fst scenario_result 0) = [''id'', ''val'']"
    unfolding scenario_result_def by code_simp+
  with scenario_completes show ?thesis by simp
qed

text \<open>
  C10, as amended. After every completed comparison \<open>column_stats\<close> holds exactly one
  entry for every shared column, the join columns among them. The two dtypes of an entry
  are the dtypes of its column in the two frames, its count of unequal rows is the number
  of matched rows less its match count, and its flag \<open>all_match\<close> is true iff the two
  dtypes are equal and the count of unequal rows is zero. For a join column the match
  count is the number of matched rows and the match column is empty; for any other column
  the match column is \<open>col_match\<close> and the match count is the number of matched rows whose
  two values are equal under the tolerances (the rule of C1).
\<close>

theorem column_stats_per_shared_column:
  assumes "init st a1 a2 jc oi atol rtol n1 n2 = Inr (st', c)"
  shows "\<exists>ir. intersect_rows c = Some ir
      \<and> distinct (map column (column_stats c))
      \<and> set (map column (column_stats c))
          = set (columns (st' (df1 c))) \<inter> set (columns (st' (df2 c)))
      \<and> (\<forall>s \<in> set (column_stats c).
            dtype1 s = dtype_of (st' (df1 c)) (column s)
          \<and> dtype2 s = dtype_of (st' (df2 c)) (column s)
          \<and> unequal_cnt s = int (len ir) - match_cnt s
          \<and> all_match s = (dtype1 s = dtype2 s \<and> unequal_cnt s = 0)
          \<and> (column s \<in> set (join_columns c) \<longrightarrow>
                match_column s = [] \<and> match_cnt s = int (len ir))
          \<and> (column s \<notin> set (join_columns c) \<longrightarrow>
                match_column s = column s @ ''_match''
              \<and> match_cnt s = int (length (filter
                    (\<lambda>x. value_equal rtol atol (cell_of (snd x) (column s @ ''_df1''))
                                                (cell_of (snd x) (column s @ ''_df2'')))
                    (rows ir)))))"
proof -
  from assms have m: "map column (column_stats c) = intersect_columns st' c"
    by (rule completed)
  have "distinct (intersect_columns st' c)"
    "set (intersect_columns st' c) = set (columns (st' (df1 c))) \<inter> set (columns (st' (df2 c)))"
    by (auto simp: intersect_columns_def)
  with m have d: "distinct (map column (column_stats c))"
    "set (map column (column_stats c))
       = set (columns (st' (df1 c))) \<inter> set (columns (st' (df2 c)))"
    by simp_all
  from completed_entries[OF assms] obtain ir where ir: "intersect_rows c = Some ir"
    and e: "\<forall>s \<in> set (column_stats c).
          entry_ok (st' (df1 c)) (st' (df2 c)) (join_columns c) rtol atol ir s"
    by blast
  from e have "\<forall>s \<in> set (column_stats c).
            dtype1 s = dtype_of (st' (df1 c)) (column s)
          \<and> dtype2 s = dtype_of (st' (df2 c)) (column s)
          \<and> unequal_cnt s = int (len ir) - match_cnt s
          \<and> all_match s = (dtype1 s = dtype2 s \<and> unequal_cnt s = 0)
          \<and> (column s \<in> set (join_columns c) \<longrightarrow>
                match_column s = [] \<and> match_cnt s = int (len ir))
          \<and> (column s \<notin> set (join_columns c) \<longrightarrow>
                match_column s = column s @ ''_match''
              \<and> match_cnt s = int (length (filter
                    (\<lambda>x. value_equal rtol atol (cell_of (snd x) (column s @ ''_df1''))
                                                (cell_of (snd x) (column s @ ''_df2'')))
                    (rows ir))))"
    unfolding entry_ok_def by (auto split: if_splits)
  with ir d show ?thesis by blast
qed

theorem column_stats_per_shared_column_witness:
  "scenario = Inr scenario_result
   \<and> set (map column (column_stats (snd scenario_result))) = {''id'', ''val''}
   \<and> distinct (map column (column_stats (snd scenario_result)))
   \<and> map_option len (intersect_rows (snd scenario_result)) = Some 2
   \<and> set (map (\<lambda>s. (column s, match_column s, match_cnt s, unequal_cnt s, all_match s))
              (column_stats (snd scenario_result)))
       = {(''id'', [], 2, 0, True), (''val'', ''val_match'', 1, 1, False)}"
proof -
  have c: "set (columns (fst scenario_result (df1 (snd scenario_result))))
           \<inter> set (columns (fst scenario_result (df2 (snd scenario_result)))) = {''id'', ''val''}"
    unfolding scenario_result_def by code_simp
  have e: "map_option len (intersect_rows (snd scenario_result)) = Some 2"
    "set (map (\<lambda>s. (column s, match_column s, match_cnt s, unequal_cnt s, all_match s))
              (column_stats (snd scenario_result)))
       = {(''id'', [], 2, 0, True), (''val'', ''val_match'', 1, 1, False)}"
    unfolding scenario_result_def by code_simp+
  from column_stats_per_shared_column[OF scenario_init] c e scenario_completes
  show ?thesis by auto
qed

text \<open>
  The claim C10 as written excludes the join columns from \<open>column_stats\<close>. In the example
  the join column \<open>id\<close> has an entry.
\<close>

theorem column_stats_excludes_keys_counterexample:
  "scenario = Inr scenario_result
   \<and> ''id'' \<in> set (join_columns (snd scenario_result))
   \<and> ''id'' \<in> set (map column (column_stats (snd scenario_result)))"
proof -
  have "''id'' \<in> set (join_columns (snd scenario_result))"
    "''id'' \<in> set (map column (column_stats (snd scenario_result)))"
    unfolding scenario_result_def by code_simp+
  with scenario_completes show ?thesis by simp
qed

end
